theory Spec2Isabelle
  imports Complex_Main "HOL-Library.Sublist"
begin

section \<open>Audio blocks\<close>

text \<open>
  The bot moves audio around as numpy arrays of shape \<open>(k, CHANNELS)\<close> with
  \<open>CHANNELS = 2\<close>: a block is a list of frames, a frame is a pair of samples, and
  \<open>len\<close> of a block is its number of frames. Samples are modelled as real numbers,
  without the rounding of float32. The special values of float32 (NaN, infinities) are
  added for the mixer in a section of their own.
\<close>

type_synonym sample = real
type_synonym frame = "sample \<times> sample"
type_synonym block = "frame list"

definition SAMPLE_RATE :: int where
  "SAMPLE_RATE = 48000"

definition BLOCKSIZE :: int where
  "BLOCKSIZE = 4096"

text \<open>\<^verbatim>\<open>np.zeros((frames, CHANNELS), dtype=np.float32)\<close> for a count that is not negative.\<close>

definition zeros :: "nat \<Rightarrow> block" where
  "zeros n = replicate n (0, 0)"

section \<open>AudioBuffer\<close>

text \<open>
  \<^verbatim>\<open>class AudioBuffer\<close>: a list of chunks, oldest first, the capacity \<open>maxsize\<close> and the
  frame counter \<open>current_size\<close>. The lock only makes each method atomic; each method is
  a function from the buffer to the new buffer. The class does not look inside a frame,
  so the type of frames is a parameter; \<open>AudioBuffer\<close> is the buffer of frames of real
  samples.
\<close>

record 'f AudioBuffer_of =
  buffer :: "'f list list"
  maxsize :: int
  current_size :: int

type_synonym AudioBuffer = "frame AudioBuffer_of"

definition AudioBuffer_init :: "int \<Rightarrow> AudioBuffer" where
  "AudioBuffer_init m = \<lparr>buffer = [], maxsize = m, current_size = 0\<rparr>"

text \<open>
  The eviction loop of \<open>write\<close>:
  \<^verbatim>\<open>while self.buffer and self.current_size + data_len > self.maxsize:
      oldest = self.buffer.pop(0); self.current_size -= len(oldest)\<close>
\<close>

fun drop_oldest :: "'f list list \<Rightarrow> int \<Rightarrow> int \<Rightarrow> int \<Rightarrow> 'f list list \<times> int" where
  "drop_oldest [] sz data_len maxs = ([], sz)"
| "drop_oldest (oldest # rest) sz data_len maxs =
     (if sz + data_len > maxs
      then drop_oldest rest (sz - int (length oldest)) data_len maxs
      else (oldest # rest, sz))"

text \<open>
  \<open>AudioBuffer.write\<close>. The warning that the overflow branch logs is not part of the
  buffer and is left out.
\<close>

definition AudioBuffer_write :: "AudioBuffer \<Rightarrow> block \<Rightarrow> AudioBuffer" where
  "AudioBuffer_write b data =
     (let data_len = int (length data) in
      if data_len = 0 then b
      else
        (case (if current_size b + data_len > maxsize b
               then drop_oldest (buffer b) (current_size b) data_len (maxsize b)
               else (buffer b, current_size b)) of
           (buf, sz) \<Rightarrow> b\<lparr>buffer := buf @ [data], current_size := sz + data_len\<rparr>))"

text \<open>
  The copy loop of \<open>read\<close>, on the chunk list, the counter, the result block and the
  read offset. A slice assignment \<^verbatim>\<open>result[i:i+k] = xs\<close> with \<open>k = len(xs)\<close> inside
  the block is \<open>take i result @ xs @ drop (i + k) result\<close>.
\<close>

function read_loop :: "'f list list \<Rightarrow> int \<Rightarrow> 'f list \<Rightarrow> nat \<Rightarrow> nat \<Rightarrow> 'f list \<times> 'f list list \<times> int" where
  "read_loop [] sz result read_offset frames = (result, [], sz)"
| "read_loop (chunk # rest) sz result read_offset frames =
     (if read_offset < frames then
        (if length chunk \<le> frames - read_offset then
           read_loop rest (sz - int (length chunk))
             (take read_offset result @ chunk @ drop (read_offset + length chunk) result)
             (read_offset + length chunk) frames
         else
           read_loop (drop (frames - read_offset) chunk # rest)
             (sz - int (frames - read_offset))
             (take read_offset result @ take (frames - read_offset) chunk
                @ drop (read_offset + (frames - read_offset)) result)
             (read_offset + (frames - read_offset)) frames)
      else (result, chunk # rest, sz))"
  by pat_completeness auto
termination
  by (relation "measure (\<lambda>(buf, sz, result, read_offset, frames). length buf + (frames - read_offset))") auto

datatype error = ValueError

text \<open>
  \<open>AudioBuffer.read\<close>. Both paths build \<^verbatim>\<open>np.zeros((frames, CHANNELS))\<close> first, which
  raises \<open>ValueError\<close> for a negative \<open>frames\<close>.
\<close>

definition AudioBuffer_read :: "AudioBuffer \<Rightarrow> int \<Rightarrow> error + (block \<times> AudioBuffer)" where
  "AudioBuffer_read b frames =
     (if frames < 0 then Inl ValueError
      else if buffer b = [] \<or> current_size b = 0 then Inr (zeros (nat frames), b)
      else
        (case read_loop (buffer b) (current_size b) (zeros (nat frames)) 0 (nat frames) of
           (result, buf, sz) \<Rightarrow> Inr (result, b\<lparr>buffer := buf, current_size := sz\<rparr>)))"

definition AudioBuffer_clear :: "AudioBuffer \<Rightarrow> AudioBuffer" where
  "AudioBuffer_clear b = b\<lparr>buffer := [], current_size := 0\<rparr>"

definition AudioBuffer_available_frames :: "AudioBuffer \<Rightarrow> int" where
  "AudioBuffer_available_frames b = current_size b"

text \<open>
  The counter agrees with the stored chunks: every method keeps this, and the constructor
  establishes it.
\<close>

definition frames_of :: "AudioBuffer \<Rightarrow> block" where
  "frames_of b = concat (buffer b)"

definition consistent :: "AudioBuffer \<Rightarrow> bool" where
  "consistent b \<longleftrightarrow> current_size b = int (length (frames_of b))"

text \<open>
  What one eviction pass over a whole history of chunks keeps: the oldest chunks are
  dropped until the total fits the capacity.
\<close>

fun newest_fitting :: "int \<Rightarrow> block list \<Rightarrow> block list" where
  "newest_fitting m [] = []"
| "newest_fitting m (c # cs) =
     (if int (length (concat (c # cs))) \<le> m then c # cs else newest_fitting m cs)"


text \<open>
  The reading of "the most recently written frames up to capacity" by frames: the last
  \<open>cap\<close> frames of everything written (all of it when there is less).
\<close>

definition most_recent_frames :: "int \<Rightarrow> block \<Rightarrow> block" where
  "most_recent_frames cap xs = drop (length xs - nat cap) xs"


section \<open>Global state and the mixer\<close>

text \<open>
  The \<open>state\<close> dictionary, with the entries that playback and mixing use. A buffer entry
  is \<open>None\<close> until \<open>start_audio_system\<close> has run. The process and task handles are
  part of the session below. The type of frames is the parameter of the two buffers;
  \<open>state\<close> is the state with frames of real samples.
\<close>

record 'f state_of =
  paused :: bool
  volume :: real
  skip :: bool
  queue :: "string list"
  current_track :: "string option"
  music_buffer :: "'f AudioBuffer_of option"
  tts_buffer :: "'f AudioBuffer_of option"

type_synonym state = "frame state_of"

definition initial_state :: state where
  "initial_state = \<lparr>paused = False, volume = 1, skip = False, queue = [],
     current_track = None, music_buffer = None, tts_buffer = None\<rparr>"

text \<open>
  \<^verbatim>\<open>state[key].read(frames) if state[key] else np.zeros((frames, CHANNELS))\<close>: an
  \<open>AudioBuffer\<close> object is always true, \<open>None\<close> is false.
\<close>

definition read_or_silence :: "AudioBuffer option \<Rightarrow> int \<Rightarrow> error + (block \<times> AudioBuffer option)" where
  "read_or_silence ob frames =
     (case ob of
        None \<Rightarrow> if frames < 0 then Inl ValueError else Inr (zeros (nat frames), None)
      | Some b \<Rightarrow>
          (case AudioBuffer_read b frames of
             Inl e \<Rightarrow> Inl e
           | Inr (data, b') \<Rightarrow> Inr (data, Some b')))"

text \<open>The array operations of the callback, frame by frame.\<close>

definition scale :: "real \<Rightarrow> block \<Rightarrow> block" where
  "scale k xs = map (\<lambda>(l, r). (l * k, r * k)) xs"

definition samples :: "block \<Rightarrow> sample list" where
  "samples xs = concat (map (\<lambda>(l, r). [l, r]) xs)"

definition tts_active :: "block \<Rightarrow> bool" where
  "tts_active tts = list_ex (\<lambda>s. \<bar>s\<bar> > 1 / 1000) (samples tts)"

definition add_blocks :: "block \<Rightarrow> block \<Rightarrow> block" where
  "add_blocks xs ys = map (\<lambda>((l, r), (l', r')). (l + l', r + r')) (zip xs ys)"

definition clip :: "real \<Rightarrow> real \<Rightarrow> real \<Rightarrow> real" where
  "clip x lo hi = min (max x lo) hi"

definition clip_block :: "block \<Rightarrow> real \<Rightarrow> real \<Rightarrow> block" where
  "clip_block xs lo hi = map (\<lambda>(l, r). (clip l lo hi, clip r lo hi)) xs"

text \<open>
  Lines 186 to 196 of \<open>audio_callback\<close>: volume, ducking, sum and limiter, on the two
  blocks that were read.
\<close>

definition mix :: "real \<Rightarrow> block \<Rightarrow> block \<Rightarrow> block" where
  "mix vol music tts =
     (let music1 = scale vol music;
          music2 = (if tts_active tts then scale (2 / 10) music1 else music1);
          mixed = add_blocks music2 tts
      in clip_block mixed (- (95 / 100)) (95 / 100))"

text \<open>
  The frame the mixer is expected to emit for a music frame \<open>m\<close> with scale factor
  \<open>k\<close> and an announcement frame \<open>t\<close>: scaled, summed, then limited.
\<close>

definition expected_frame :: "real \<Rightarrow> frame \<Rightarrow> frame \<Rightarrow> frame" where
  "expected_frame k m t =
     (clip (fst m * k + fst t) (- (95 / 100)) (95 / 100),
      clip (snd m * k + snd t) (- (95 / 100)) (95 / 100))"

text \<open>
  \<open>audio_callback\<close>: the block written to \<open>outdata\<close> and the state with both buffers
  read. The music buffer is read first.
\<close>

definition audio_callback :: "state \<Rightarrow> int \<Rightarrow> error + (block \<times> state)" where
  "audio_callback s frames =
     (case read_or_silence (music_buffer s) frames of
        Inl e \<Rightarrow> Inl e
      | Inr (music, mb) \<Rightarrow>
          (case read_or_silence (tts_buffer s) frames of
             Inl e \<Rightarrow> Inl e
           | Inr (tts, tb) \<Rightarrow>
               Inr (mix (volume s) music tts, s\<lparr>music_buffer := mb, tts_buffer := tb\<rparr>)))"

section \<open>The mixer on float values\<close>

text \<open>
  A float32 sample of the source is not always a number: \<open>np.frombuffer\<close> puts the
  bytes of the decoder into the buffer as they are, and they may encode NaN or an
  infinity. The mixer is given a second time here, on samples that are a real number,
  an infinity or NaN, with the IEEE rules for the special values and still without
  rounding. On numbers it agrees with the mixer above.
\<close>

datatype fsample = Num real | PosInf | NegInf | NaN

type_synonym fframe = "fsample \<times> fsample"
type_synonym fblock = "fframe list"
type_synonym AudioBuffer_f = "fframe AudioBuffer_of"
type_synonym state_f = "fframe state_of"

text \<open>\<^verbatim>\<open>np.zeros\<close>, \<open>AudioBuffer.read\<close> and the read of the callback, on these frames.\<close>

definition zeros_f :: "nat \<Rightarrow> fblock" where
  "zeros_f n = replicate n (Num 0, Num 0)"

definition AudioBuffer_read_f :: "AudioBuffer_f \<Rightarrow> int \<Rightarrow> error + (fblock \<times> AudioBuffer_f)" where
  "AudioBuffer_read_f b frames =
     (if frames < 0 then Inl ValueError
      else if buffer b = [] \<or> current_size b = 0 then Inr (zeros_f (nat frames), b)
      else
        (case read_loop (buffer b) (current_size b) (zeros_f (nat frames)) 0 (nat frames) of
           (result, buf, sz) \<Rightarrow> Inr (result, b\<lparr>buffer := buf, current_size := sz\<rparr>)))"

definition read_or_silence_f :: "AudioBuffer_f option \<Rightarrow> int \<Rightarrow> error + (fblock \<times> AudioBuffer_f option)" where
  "read_or_silence_f ob frames =
     (case ob of
        None \<Rightarrow> if frames < 0 then Inl ValueError else Inr (zeros_f (nat frames), None)
      | Some b \<Rightarrow>
          (case AudioBuffer_read_f b frames of
             Inl e \<Rightarrow> Inl e
           | Inr (data, b') \<Rightarrow> Inr (data, Some b')))"

text \<open>
  The arithmetic of the callback on one sample: the product with a Python float (the
  volume, or 0.2), the sum of two samples, \<^verbatim>\<open>np.abs(x) > c\<close> and \<open>np.clip\<close>. An
  infinity times 0 and the sum of the two infinities are NaN; NaN is greater than
  nothing; \<open>np.clip\<close> is \<^verbatim>\<open>minimum(maximum(x, lo), hi)\<close> and gives NaN for NaN.
\<close>

fun fmul :: "fsample \<Rightarrow> real \<Rightarrow> fsample" where
  "fmul (Num a) k = Num (a * k)"
| "fmul PosInf k = (if k > 0 then PosInf else if k < 0 then NegInf else NaN)"
| "fmul NegInf k = (if k > 0 then NegInf else if k < 0 then PosInf else NaN)"
| "fmul NaN k = NaN"

fun fadd :: "fsample \<Rightarrow> fsample \<Rightarrow> fsample" where
  "fadd (Num a) (Num b) = Num (a + b)"
| "fadd NaN y = NaN"
| "fadd x NaN = NaN"
| "fadd PosInf NegInf = NaN"
| "fadd NegInf PosInf = NaN"
| "fadd PosInf y = PosInf"
| "fadd x PosInf = PosInf"
| "fadd NegInf y = NegInf"
| "fadd x NegInf = NegInf"

fun fabs_gt :: "fsample \<Rightarrow> real \<Rightarrow> bool" where
  "fabs_gt (Num a) c = (\<bar>a\<bar> > c)"
| "fabs_gt PosInf c = True"
| "fabs_gt NegInf c = True"
| "fabs_gt NaN c = False"

fun fclip :: "fsample \<Rightarrow> real \<Rightarrow> real \<Rightarrow> fsample" where
  "fclip (Num a) lo hi = Num (clip a lo hi)"
| "fclip PosInf lo hi = Num hi"
| "fclip NegInf lo hi = Num (min lo hi)"
| "fclip NaN lo hi = NaN"

text \<open>The array operations, the mix and the callback, as above.\<close>

definition scale_f :: "real \<Rightarrow> fblock \<Rightarrow> fblock" where
  "scale_f k xs = map (\<lambda>(l, r). (fmul l k, fmul r k)) xs"

definition samples_f :: "fblock \<Rightarrow> fsample list" where
  "samples_f xs = concat (map (\<lambda>(l, r). [l, r]) xs)"

definition tts_active_f :: "fblock \<Rightarrow> bool" where
  "tts_active_f tts = list_ex (\<lambda>s. fabs_gt s (1 / 1000)) (samples_f tts)"

definition add_blocks_f :: "fblock \<Rightarrow> fblock \<Rightarrow> fblock" where
  "add_blocks_f xs ys = map (\<lambda>((l, r), (l', r')). (fadd l l', fadd r r')) (zip xs ys)"

definition clip_block_f :: "fblock \<Rightarrow> real \<Rightarrow> real \<Rightarrow> fblock" where
  "clip_block_f xs lo hi = map (\<lambda>(l, r). (fclip l lo hi, fclip r lo hi)) xs"

definition mix_f :: "real \<Rightarrow> fblock \<Rightarrow> fblock \<Rightarrow> fblock" where
  "mix_f vol music tts =
     (let music1 = scale_f vol music;
          music2 = (if tts_active_f tts then scale_f (2 / 10) music1 else music1);
          mixed = add_blocks_f music2 tts
      in clip_block_f mixed (- (95 / 100)) (95 / 100))"

definition audio_callback_f :: "state_f \<Rightarrow> int \<Rightarrow> error + (fblock \<times> state_f)" where
  "audio_callback_f s frames =
     (case read_or_silence_f (music_buffer s) frames of
        Inl e \<Rightarrow> Inl e
      | Inr (music, mb) \<Rightarrow>
          (case read_or_silence_f (tts_buffer s) frames of
             Inl e \<Rightarrow> Inl e
           | Inr (tts, tb) \<Rightarrow>
               Inr (mix_f (volume s) music tts, s\<lparr>music_buffer := mb, tts_buffer := tb\<rparr>)))"

text \<open>
  A sample within the limiter's range, a sample that is a number, a buffer that holds
  numbers only, and a frame of real samples as a frame of float values.
\<close>

fun in_limits :: "fsample \<Rightarrow> bool" where
  "in_limits (Num a) = (- (95 / 100) \<le> a \<and> a \<le> 95 / 100)"
| "in_limits PosInf = False"
| "in_limits NegInf = False"
| "in_limits NaN = False"

fun is_num :: "fsample \<Rightarrow> bool" where
  "is_num (Num a) = True"
| "is_num PosInf = False"
| "is_num NegInf = False"
| "is_num NaN = False"

definition finite_buffer :: "AudioBuffer_f option \<Rightarrow> bool" where
  "finite_buffer ob =
     (case ob of
        None \<Rightarrow> True
      | Some b \<Rightarrow> list_all is_num (samples_f (concat (buffer b))))"

definition num_frame :: "frame \<Rightarrow> fframe" where
  "num_frame f = (Num (fst f), Num (snd f))"

section \<open>Control commands\<close>

text \<open>
  The handlers of \<open>/skip\<close>, \<open>/volume\<close>, \<open>/pause\<close> and \<open>/resume\<close>: the new state and the
  message sent back. \<^verbatim>\<open>if state["current_track"]\<close> is false for \<open>None\<close> and for the
  empty string.
\<close>

datatype reply =
  Skipping | NothingPlaying | VolumeRejected | VolumeSet int | Paused | Resumed | NothingPaused

definition track_set :: "string option \<Rightarrow> bool" where
  "track_set t = (case t of None \<Rightarrow> False | Some url \<Rightarrow> url \<noteq> [])"

definition skip_command :: "state \<Rightarrow> state \<times> reply" where
  "skip_command s =
     (if track_set (current_track s) then (s\<lparr>skip := True\<rparr>, Skipping)
      else (s, NothingPlaying))"

definition volume_command :: "state \<Rightarrow> int \<Rightarrow> state \<times> reply" where
  "volume_command s level =
     (if level < 0 \<or> level > 200 then (s, VolumeRejected)
      else (s\<lparr>volume := real_of_int level / 100\<rparr>, VolumeSet level))"

definition pause_command :: "state \<Rightarrow> state \<times> reply" where
  "pause_command s =
     (if track_set (current_track s) then (s\<lparr>paused := True\<rparr>, Paused)
      else (s, NothingPlaying))"

definition resume_command :: "state \<Rightarrow> state \<times> reply" where
  "resume_command s =
     (if paused s then (s\<lparr>paused := False\<rparr>, Resumed)
      else (s, NothingPaused))"

datatype command = Skip | Volume int | Pause | Resume

fun handle_command :: "state \<Rightarrow> command \<Rightarrow> state \<times> reply" where
  "handle_command s Skip = skip_command s"
| "handle_command s (Volume level) = volume_command s level"
| "handle_command s Pause = pause_command s"
| "handle_command s Resume = resume_command s"

section \<open>One track: the streaming loop of \<open>play_youtube\<close>\<close>

text \<open>
  \<open>play_youtube\<close> is a coroutine on the event loop: between two of its suspension points
  it runs alone, and while it is suspended the command handlers run and the audio thread
  calls \<open>audio_callback\<close>. A session is the place where the coroutine is suspended, the
  global state, and the calls made so far on the two processes, the bridging task and the
  buffer, in order. The suspension points of the loop are the sleep of the pause wait,
  the sleep of the backpressure wait, the read from FFmpeg and the wait for the cancelled
  bridging task.
\<close>

datatype action =
  SpawnYtDlp | SpawnFfmpeg | StartPipeTask | CancelPipeTask | TerminateFfmpeg
  | TerminateYtDlp | ClearMusicBuffer | LogTrackSkipped | LogPlaybackError | LogNoMusicBuffer

datatype exit_reason = TrackSkipped | EndOfStream | Failed | Cancelled

datatype pc = PauseWait | BackpressureWait | ReadWait | CancelWait | Exited exit_reason

record session =
  pc :: pc
  st :: state
  actions :: "action list"

text \<open>
  What \<^verbatim>\<open>await ffmpeg_process.stdout.read(...)\<close> gives, after \<open>np.frombuffer\<close> and
  \<open>reshape\<close>: a block of frames, empty at the end of the stream, or an exception.
\<close>

datatype read_result = Data block | ReadError

text \<open>
  What happens while the coroutine is suspended, or what wakes it up: a command, a mixer
  callback on the audio thread, the end of a sleep, the result of the read, the end of
  the wait for the bridging task, and the cancellation of the playback task.
\<close>

datatype event =
  Command command | MixerCallback int | TimerFired | ReadReturned read_result
  | PipeTaskSettled | TaskCancelled

text \<open>
  \<^verbatim>\<open>while state["music_buffer"] and state["music_buffer"].available_frames() > SAMPLE_RATE * 2\<close>
\<close>

definition over_backpressure :: "state \<Rightarrow> bool" where
  "over_backpressure s =
     (case music_buffer s of
        None \<Rightarrow> False
      | Some b \<Rightarrow> AudioBuffer_available_frames b > SAMPLE_RATE * 2)"

definition backpressure_check :: "state \<Rightarrow> action list \<Rightarrow> session" where
  "backpressure_check s acts =
     \<lparr>pc = (if over_backpressure s then BackpressureWait else ReadWait), st = s, actions = acts\<rparr>"

text \<open>\<^verbatim>\<open>while state["paused"] and not state["skip"]: await asyncio.sleep(0.1)\<close>\<close>

definition pause_check :: "state \<Rightarrow> action list \<Rightarrow> session" where
  "pause_check s acts =
     (if paused s \<and> \<not> skip s then \<lparr>pc = PauseWait, st = s, actions = acts\<rparr>
      else backpressure_check s acts)"

text \<open>
  The top of the \<^verbatim>\<open>while True\<close> loop, up to the next suspension: the skip flag is looked
  at here and nowhere else in the loop body but in the condition of the pause wait.
\<close>

definition loop_top :: "state \<Rightarrow> action list \<Rightarrow> session" where
  "loop_top s acts =
     (if skip s
      then \<lparr>pc = CancelWait, st = s\<lparr>skip := False\<rparr>, actions = acts @ [CancelPipeTask]\<rparr>
      else pause_check s acts)"

text \<open>
  The rest of the skip branch, after the wait for the bridging task: both processes are
  terminated, the music buffer is cleared, the loop is left. The two \<open>terminate\<close> calls
  are recorded as made; the source wraps them in a \<^verbatim>\<open>try\<close> that swallows their
  failure. The waits for the processes after the loop change nothing in the state and
  are not part of the session.
\<close>

definition skip_teardown :: "session \<Rightarrow> session" where
  "skip_teardown ss =
     \<lparr>pc = Exited TrackSkipped,
      st = (st ss)\<lparr>music_buffer := map_option AudioBuffer_clear (music_buffer (st ss))\<rparr>,
      actions = actions ss @ [TerminateFfmpeg, TerminateYtDlp]
        @ (if music_buffer (st ss) = None then [] else [ClearMusicBuffer])
        @ [LogTrackSkipped]\<rparr>"

text \<open>
  After the read: \<^verbatim>\<open>if not chunk: break\<close>, else the chunk is written to the music buffer
  and the loop starts over. An exception ends \<open>play_youtube\<close> in its \<^verbatim>\<open>except Exception\<close>
  branch.
\<close>

definition on_read :: "session \<Rightarrow> read_result \<Rightarrow> session" where
  "on_read ss r =
     (case r of
        ReadError \<Rightarrow> ss\<lparr>pc := Exited Failed, actions := actions ss @ [LogPlaybackError]\<rparr>
      | Data d \<Rightarrow>
          if d = [] then ss\<lparr>pc := Exited EndOfStream\<rparr>
          else
            (case music_buffer (st ss) of
               None \<Rightarrow> ss\<lparr>pc := Exited Failed, actions := actions ss @ [LogPlaybackError]\<rparr>
             | Some b \<Rightarrow>
                 loop_top ((st ss)\<lparr>music_buffer := Some (AudioBuffer_write b d)\<rparr>) (actions ss)))"

text \<open>The \<^verbatim>\<open>except asyncio.CancelledError\<close> branch: both processes are terminated.\<close>

definition on_cancelled :: "session \<Rightarrow> session" where
  "on_cancelled ss =
     ss\<lparr>pc := Exited Cancelled, actions := actions ss @ [TerminateFfmpeg, TerminateYtDlp]\<rparr>"

text \<open>
  One event. A finished session takes no more events. The wait for the bridging task
  catches \<open>CancelledError\<close> and \<open>TimeoutError\<close> alike, so a cancellation there goes on
  with the skip branch.
\<close>

definition session_step :: "session \<Rightarrow> event \<Rightarrow> session" where
  "session_step ss ev =
     (case pc ss of
        Exited r \<Rightarrow> ss
      | _ \<Rightarrow>
          (case ev of
             Command c \<Rightarrow> ss\<lparr>st := fst (handle_command (st ss) c)\<rparr>
           | MixerCallback n \<Rightarrow>
               ss\<lparr>st := (case audio_callback (st ss) n of Inl e \<Rightarrow> st ss | Inr (out, s') \<Rightarrow> s')\<rparr>
           | TimerFired \<Rightarrow>
               (if pc ss = PauseWait then pause_check (st ss) (actions ss)
                else if pc ss = BackpressureWait then backpressure_check (st ss) (actions ss)
                else ss)
           | ReadReturned r \<Rightarrow> (if pc ss = ReadWait then on_read ss r else ss)
           | PipeTaskSettled \<Rightarrow> (if pc ss = CancelWait then skip_teardown ss else ss)
           | TaskCancelled \<Rightarrow> (if pc ss = CancelWait then skip_teardown ss else on_cancelled ss)))"

definition run_session :: "session \<Rightarrow> event list \<Rightarrow> session" where
  "run_session ss evs = foldl session_step ss evs"

text \<open>
  The start of \<open>play_youtube\<close>: without a music buffer it returns \<open>False\<close> at once; a
  process that cannot be spawned raises into the \<^verbatim>\<open>except Exception\<close> branch; else the
  loop is entered.
\<close>

definition play_youtube_start :: "state \<Rightarrow> bool \<Rightarrow> bool \<Rightarrow> session" where
  "play_youtube_start s yt_ok ffmpeg_ok =
     (if music_buffer s = None then \<lparr>pc = Exited Failed, st = s, actions = [LogNoMusicBuffer]\<rparr>
      else if \<not> yt_ok then \<lparr>pc = Exited Failed, st = s, actions = [LogPlaybackError]\<rparr>
      else if \<not> ffmpeg_ok
        then \<lparr>pc = Exited Failed, st = s, actions = [SpawnYtDlp, LogPlaybackError]\<rparr>
      else loop_top s [SpawnYtDlp, SpawnFfmpeg, StartPipeTask])"

text \<open>
  The environment of one track: whether the two processes can be spawned, and the
  events of the session.
\<close>

record track_env =
  yt_spawns :: bool
  ffmpeg_spawns :: bool
  events :: "event list"

definition play_youtube :: "state \<Rightarrow> track_env \<Rightarrow> session" where
  "play_youtube s env =
     run_session (play_youtube_start s (yt_spawns env) (ffmpeg_spawns env)) (events env)"

text \<open>What \<open>play_youtube\<close> gives its caller: \<open>True\<close>, \<open>False\<close> or \<open>CancelledError\<close>.\<close>

datatype outcome = Returned bool | RaisedCancelled

fun play_youtube_result :: "exit_reason \<Rightarrow> outcome" where
  "play_youtube_result TrackSkipped = Returned True"
| "play_youtube_result EndOfStream = Returned True"
| "play_youtube_result Failed = Returned False"
| "play_youtube_result Cancelled = RaisedCancelled"

section \<open>The queue: \<open>playback_loop\<close>\<close>

text \<open>
  The loop takes the next URL from the queue, plays it, logs a failure, clears
  \<open>current_track\<close> and saves the queue. It stops only in its
  \<^verbatim>\<open>except asyncio.CancelledError\<close> branch. It is run here over the environments of the
  tracks to come: it ends waiting at \<open>queue.get()\<close>, inside a track whose events are
  used up, or stopped.
\<close>

datatype log_entry = NowPlaying string | FailedToPlay string | PlaybackLoopStopped

datatype loop_status = AtQueueGet | InTrack | Stopped

record player =
  pstate :: state
  plog :: "log_entry list"
  saved_queue :: "string list"

fun playback_loop :: "player \<Rightarrow> track_env list \<Rightarrow> player \<times> loop_status" where
  "playback_loop p [] = (p, AtQueueGet)"
| "playback_loop p (env # envs) =
     (case queue (pstate p) of
        [] \<Rightarrow> (p, AtQueueGet)
      | url # rest \<Rightarrow>
          (let ss = play_youtube ((pstate p)\<lparr>queue := rest, current_track := Some url\<rparr>) env
           in case pc ss of
                Exited r \<Rightarrow>
                  (case play_youtube_result r of
                     Returned success \<Rightarrow>
                       playback_loop
                         \<lparr>pstate = (st ss)\<lparr>current_track := None\<rparr>,
                          plog = plog p @ [NowPlaying url]
                            @ (if success then [] else [FailedToPlay url]),
                          saved_queue = queue (st ss)\<rparr> envs
                   | RaisedCancelled \<Rightarrow>
                       (\<lparr>pstate = st ss,
                         plog = plog p @ [NowPlaying url, PlaybackLoopStopped],
                         saved_queue = saved_queue p\<rparr>, Stopped))
              | _ \<Rightarrow>
                  (\<lparr>pstate = st ss, plog = plog p @ [NowPlaying url],
                    saved_queue = saved_queue p\<rparr>, InTrack)))"

section \<open>Properties of the buffer\<close>

subsection \<open>Eviction\<close>

lemma drop_oldest_suffix:
  "drop_oldest buf sz dl m = (buf', sz') \<Longrightarrow> suffix buf' buf"
  by (induction buf sz dl m rule: drop_oldest.induct) (auto split: if_splits intro: suffix_ConsI)

lemma drop_oldest_size:
  "drop_oldest buf sz dl m = (buf', sz') \<Longrightarrow> sz = int (length (concat buf)) \<Longrightarrow>
   sz' = int (length (concat buf'))"
  by (induction buf sz dl m rule: drop_oldest.induct) (auto split: if_splits)

lemma drop_oldest_fits:
  "drop_oldest buf sz dl m = (buf', sz') \<Longrightarrow> buf' = [] \<or> sz' + dl \<le> m"
  by (induction buf sz dl m rule: drop_oldest.induct) (auto split: if_splits)

lemma drop_oldest_maximal:
  "drop_oldest buf sz dl m = (buf', sz') \<Longrightarrow> sz = int (length (concat buf)) \<Longrightarrow>
   suffix k buf \<Longrightarrow> length buf' < length k \<Longrightarrow> m < int (length (concat k)) + dl"
proof (induction buf sz dl m arbitrary: k rule: drop_oldest.induct)
  case (1 sz data_len maxs)
  then show ?case by simp
next
  case (2 oldest rest sz data_len maxs)
  show ?case
  proof (cases "sz + data_len > maxs")
    case True
    show ?thesis
    proof (cases "k = oldest # rest")
      case True
      with \<open>sz + data_len > maxs\<close> 2 show ?thesis by simp
    next
      case False
      with 2 have "suffix k rest" by (auto simp: suffix_Cons)
      with 2 True show ?thesis by auto
    qed
  next
    case False
    with 2 have "buf' = oldest # rest" by simp
    with 2 have "length k \<le> length buf'" using suffix_length_le by blast
    with 2 show ?thesis by simp
  qed
qed

lemma newest_fitting_unique:
  "suffix k0 hist \<Longrightarrow> int (length (concat k0)) \<le> m \<Longrightarrow>
   (\<forall>k. suffix k hist \<and> length k0 < length k \<longrightarrow> m < int (length (concat k))) \<Longrightarrow>
   newest_fitting m hist = k0"
proof (induction hist)
  case Nil
  then show ?case by simp
next
  case (Cons c cs)
  show ?case
  proof (cases "int (length (concat (c # cs))) \<le> m")
    case True
    have "k0 = c # cs"
    proof (rule ccontr)
      assume "k0 \<noteq> c # cs"
      with Cons.prems(1) have "suffix k0 cs" by (simp add: suffix_Cons)
      then have "length k0 < length (c # cs)" using suffix_length_le by fastforce
      with Cons.prems(3) have "m < int (length (concat (c # cs)))" by blast
      with True show False by simp
    qed
    with True show ?thesis by simp
  next
    case False
    with Cons.prems(2) have "k0 \<noteq> c # cs" by auto
    with Cons.prems(1) have s: "suffix k0 cs" by (simp add: suffix_Cons)
    have "\<forall>k. suffix k cs \<and> length k0 < length k \<longrightarrow> m < int (length (concat k))"
      using Cons.prems(3) by (auto simp: suffix_Cons)
    with s Cons.prems(2) have "newest_fitting m cs = k0" by (rule Cons.IH)
    with False show ?thesis by simp
  qed
qed

lemma newest_fitting_suffix: "suffix (newest_fitting m hist) hist"
  by (induction hist) (auto intro: suffix_ConsI)

lemma newest_fitting_fits:
  "0 \<le> m \<Longrightarrow> int (length (concat (newest_fitting m hist))) \<le> m"
  by (induction hist) auto

lemma newest_fitting_longest:
  "suffix k hist \<Longrightarrow> length (newest_fitting m hist) < length k \<Longrightarrow> m < int (length (concat k))"
proof (induction hist)
  case Nil
  then show ?case by simp
next
  case (Cons c cs)
  then show ?case
    by (cases "k = c # cs") (auto simp: suffix_Cons split: if_splits dest: suffix_length_le)
qed

lemma write_empty: "AudioBuffer_write b [] = b"
  by (simp add: AudioBuffer_write_def)

lemma write_maxsize: "maxsize (AudioBuffer_write b d) = maxsize b"
  by (auto simp: AudioBuffer_write_def Let_def split: prod.splits)

lemma write_step:
  assumes c: "consistent b" and le: "current_size b \<le> maxsize b"
    and s: "suffix (buffer b) hist"
    and mx: "\<forall>k. suffix k hist \<and> length (buffer b) < length k \<longrightarrow> maxsize b < int (length (concat k))"
    and d: "d \<noteq> []" and dl: "int (length d) \<le> maxsize b"
  shows "consistent (AudioBuffer_write b d)"
    and "current_size (AudioBuffer_write b d) \<le> maxsize b"
    and "suffix (buffer (AudioBuffer_write b d)) (hist @ [d])"
    and "\<forall>k. suffix k (hist @ [d]) \<and> length (buffer (AudioBuffer_write b d)) < length k
           \<longrightarrow> maxsize b < int (length (concat k))"
proof -
  let ?dl = "int (length d)"
  show "consistent (AudioBuffer_write b d)"
    using c d
    by (auto simp: AudioBuffer_write_def consistent_def frames_of_def Let_def
        split: prod.splits dest: drop_oldest_size)
  show "current_size (AudioBuffer_write b d) \<le> maxsize b"
  proof (cases "current_size b + ?dl > maxsize b")
    case True
    obtain buf sz where r: "drop_oldest (buffer b) (current_size b) ?dl (maxsize b) = (buf, sz)"
      by (cases "drop_oldest (buffer b) (current_size b) ?dl (maxsize b)")
    from r c have sz: "sz = int (length (concat buf))"
      by (auto simp: consistent_def frames_of_def dest: drop_oldest_size)
    from r have "buf = [] \<or> sz + ?dl \<le> maxsize b" by (rule drop_oldest_fits)
    with sz dl have "sz + ?dl \<le> maxsize b" by auto
    with True r d show ?thesis by (simp add: AudioBuffer_write_def)
  next
    case False
    with d show ?thesis by (simp add: AudioBuffer_write_def)
  qed
  show "suffix (buffer (AudioBuffer_write b d)) (hist @ [d])"
  proof (cases "current_size b + ?dl > maxsize b")
    case True
    obtain buf sz where r: "drop_oldest (buffer b) (current_size b) ?dl (maxsize b) = (buf, sz)"
      by (cases "drop_oldest (buffer b) (current_size b) ?dl (maxsize b)")
    from r have "suffix buf (buffer b)" by (rule drop_oldest_suffix)
    with s have "suffix buf hist" using suffix_order.trans by blast
    with True r d show ?thesis by (simp add: AudioBuffer_write_def)
  next
    case False
    with d s show ?thesis by (simp add: AudioBuffer_write_def)
  qed
  show "\<forall>k. suffix k (hist @ [d]) \<and> length (buffer (AudioBuffer_write b d)) < length k
           \<longrightarrow> maxsize b < int (length (concat k))"
  proof (intro allI impI, elim conjE)
    fix k
    assume sk: "suffix k (hist @ [d])" and lk: "length (buffer (AudioBuffer_write b d)) < length k"
    from lk have "k \<noteq> []" by auto
    with sk obtain k' where k: "k = k' @ [d]" and sk': "suffix k' hist" by auto
    show "maxsize b < int (length (concat k))"
    proof (cases "length (buffer b) < length k'")
      case True
      with sk' mx have "maxsize b < int (length (concat k'))" by blast
      with k show ?thesis by simp
    next
      case short: False
      with s sk' have sb: "suffix k' (buffer b)" by (auto intro: suffix_length_suffix)
      show ?thesis
      proof (cases "current_size b + ?dl > maxsize b")
        case True
        obtain buf sz where r: "drop_oldest (buffer b) (current_size b) ?dl (maxsize b) = (buf, sz)"
          by (cases "drop_oldest (buffer b) (current_size b) ?dl (maxsize b)")
        from True r d have "buffer (AudioBuffer_write b d) = buf @ [d]"
          by (simp add: AudioBuffer_write_def)
        with lk k have "length buf < length k'" by simp
        with r c sb have "maxsize b < int (length (concat k')) + ?dl"
          by (auto simp: consistent_def frames_of_def intro: drop_oldest_maximal)
        with k show ?thesis by simp
      next
        case False
        with d have "buffer (AudioBuffer_write b d) = buffer b @ [d]"
          by (simp add: AudioBuffer_write_def)
        with lk k short show ?thesis by simp
      qed
    qed
  qed
qed

lemma writes_invariant:
  assumes "consistent b" and "current_size b \<le> maxsize b"
    and "suffix (buffer b) hist"
    and "\<forall>k. suffix k hist \<and> length (buffer b) < length k \<longrightarrow> maxsize b < int (length (concat k))"
    and "\<forall>d\<in>set ds. int (length d) \<le> maxsize b"
  shows "consistent (foldl AudioBuffer_write b ds)
       \<and> current_size (foldl AudioBuffer_write b ds) \<le> maxsize b
       \<and> maxsize (foldl AudioBuffer_write b ds) = maxsize b
       \<and> suffix (buffer (foldl AudioBuffer_write b ds)) (hist @ filter (\<lambda>d. d \<noteq> []) ds)
       \<and> (\<forall>k. suffix k (hist @ filter (\<lambda>d. d \<noteq> []) ds)
               \<and> length (buffer (foldl AudioBuffer_write b ds)) < length k
             \<longrightarrow> maxsize b < int (length (concat k)))"
  using assms
proof (induction ds arbitrary: b hist)
  case Nil
  then show ?case by simp
next
  case (Cons d ds)
  show ?case
  proof (cases "d = []")
    case True
    with Cons.prems have "consistent (foldl AudioBuffer_write b ds)
       \<and> current_size (foldl AudioBuffer_write b ds) \<le> maxsize b
       \<and> maxsize (foldl AudioBuffer_write b ds) = maxsize b
       \<and> suffix (buffer (foldl AudioBuffer_write b ds)) (hist @ filter (\<lambda>d. d \<noteq> []) ds)
       \<and> (\<forall>k. suffix k (hist @ filter (\<lambda>d. d \<noteq> []) ds)
               \<and> length (buffer (foldl AudioBuffer_write b ds)) < length k
             \<longrightarrow> maxsize b < int (length (concat k)))"
      by (intro Cons.IH) auto
    with True show ?thesis by (simp add: write_empty)
  next
    case False
    let ?b = "AudioBuffer_write b d"
    from Cons.prems have dl: "int (length d) \<le> maxsize b" by simp
    note st = write_step [OF Cons.prems(1) Cons.prems(2) Cons.prems(3) Cons.prems(4) False dl]
    have m: "maxsize ?b = maxsize b" by (rule write_maxsize)
    have "consistent (foldl AudioBuffer_write ?b ds)
       \<and> current_size (foldl AudioBuffer_write ?b ds) \<le> maxsize ?b
       \<and> maxsize (foldl AudioBuffer_write ?b ds) = maxsize ?b
       \<and> suffix (buffer (foldl AudioBuffer_write ?b ds)) ((hist @ [d]) @ filter (\<lambda>d. d \<noteq> []) ds)
       \<and> (\<forall>k. suffix k ((hist @ [d]) @ filter (\<lambda>d. d \<noteq> []) ds)
               \<and> length (buffer (foldl AudioBuffer_write ?b ds)) < length k
             \<longrightarrow> maxsize ?b < int (length (concat k)))"
      using st Cons.prems(5) by (intro Cons.IH) (simp_all add: m)
    with False show ?thesis by (simp add: m)
  qed
qed

lemma suffix_concat: "suffix k hist \<Longrightarrow> suffix (concat k) (concat hist)"
  by (auto simp: suffix_def)

lemma concat_filter_nonempty: "concat (filter (\<lambda>d. d \<noteq> []) ds) = concat ds"
  by (induction ds) auto

subsection \<open>Writes\<close>

text \<open>
  Claim C1, as amended. Take a buffer whose counter agrees with its chunks and does not
  exceed the capacity, and any sequence of writes, each of at most \<open>maxsize\<close> frames.
  After the writes (so after each of them, every prefix being such a sequence) the
  occupancy is at most the capacity, the counter still agrees with the chunks, and the
  buffer holds exactly the newest whole chunks: the stored chunks followed by the
  non-empty written blocks, with the oldest chunks dropped until the rest fits. The
  retained frames are a suffix of all frames stored and written. Eviction is by whole
  chunks, so fewer than \<open>maxsize\<close> frames may remain.
\<close>

theorem write_sequence_retains_newest_chunks:
  assumes "consistent b0" and "current_size b0 \<le> maxsize b0"
    and "\<forall>d\<in>set ds. int (length d) \<le> maxsize b0"
  shows "current_size (foldl AudioBuffer_write b0 ds) \<le> maxsize b0
       \<and> consistent (foldl AudioBuffer_write b0 ds)
       \<and> buffer (foldl AudioBuffer_write b0 ds)
           = newest_fitting (maxsize b0) (buffer b0 @ filter (\<lambda>d. d \<noteq> []) ds)
       \<and> suffix (frames_of (foldl AudioBuffer_write b0 ds)) (frames_of b0 @ concat ds)"
proof -
  let ?b = "foldl AudioBuffer_write b0 ds"
  let ?hist = "buffer b0 @ filter (\<lambda>d. d \<noteq> []) ds"
  have mx0: "\<forall>k. suffix k (buffer b0) \<and> length (buffer b0) < length k
               \<longrightarrow> maxsize b0 < int (length (concat k))"
    using suffix_length_le by fastforce
  have inv: "consistent ?b \<and> current_size ?b \<le> maxsize b0 \<and> maxsize ?b = maxsize b0
       \<and> suffix (buffer ?b) ?hist
       \<and> (\<forall>k. suffix k ?hist \<and> length (buffer ?b) < length k
             \<longrightarrow> maxsize b0 < int (length (concat k)))"
    using assms(1,2) suffix_order.refl mx0 assms(3) by (rule writes_invariant)
  then have fits: "int (length (concat (buffer ?b))) \<le> maxsize b0"
    by (simp add: consistent_def frames_of_def)
  from inv fits have "newest_fitting (maxsize b0) ?hist = buffer ?b"
    by (intro newest_fitting_unique) auto
  moreover from inv have "suffix (concat (buffer ?b)) (concat ?hist)"
    by (intro suffix_concat) simp
  ultimately show ?thesis
    using inv by (simp add: frames_of_def concat_filter_nonempty)
qed

text \<open>
  Three writes of 6, 3 and 3 frames into an empty buffer of capacity 10: the first chunk
  is evicted, 6 frames remain.
\<close>

theorem write_sequence_retains_newest_chunks_witness:
  "consistent (AudioBuffer_init 10)
   \<and> current_size (AudioBuffer_init 10) \<le> maxsize (AudioBuffer_init 10)
   \<and> int (length (replicate 6 (1::real, 1::real))) \<le> maxsize (AudioBuffer_init 10)
   \<and> int (length (replicate 3 (2::real, 2::real))) \<le> maxsize (AudioBuffer_init 10)
   \<and> current_size (foldl AudioBuffer_write (AudioBuffer_init 10)
        [replicate 6 (1, 1), replicate 3 (2, 2), replicate 3 (3, 3)]) = 6
   \<and> buffer (foldl AudioBuffer_write (AudioBuffer_init 10)
        [replicate 6 (1, 1), replicate 3 (2, 2), replicate 3 (3, 3)])
       = newest_fitting 10 [replicate 6 (1, 1), replicate 3 (2, 2), replicate 3 (3, 3)]"
  using write_sequence_retains_newest_chunks
    [of "AudioBuffer_init 10" "[replicate 6 (1, 1), replicate 3 (2, 2), replicate 3 (3, 3)]"]
  by (simp add: AudioBuffer_init_def consistent_def frames_of_def AudioBuffer_write_def)

text \<open>
  Claim C1 read by frames fails. Two writes of 6 frames into an empty buffer of capacity
  10: the second write evicts the whole first chunk, so the buffer holds the last 6
  frames and not the last 10.
\<close>

theorem write_last_capacity_frames_counterexample:
  "frames_of (foldl AudioBuffer_write (AudioBuffer_init 10) [replicate 6 (1, 1), replicate 6 (2, 2)])
     = replicate 6 (2, 2)
   \<and> most_recent_frames 10 (concat [replicate 6 (1, 1), replicate 6 (2, 2)])
     = replicate 4 (1, 1) @ replicate 6 (2, 2)
   \<and> frames_of (foldl AudioBuffer_write (AudioBuffer_init 10) [replicate 6 (1, 1), replicate 6 (2, 2)])
     \<noteq> most_recent_frames 10 (concat [replicate 6 (1, 1), replicate 6 (2, 2)])"
  by (simp add: AudioBuffer_init_def frames_of_def AudioBuffer_write_def most_recent_frames_def
      numeral_eq_Suc)

text \<open>A block larger than the capacity evicts everything.\<close>

lemma drop_oldest_all:
  "sz = int (length (concat buf)) \<Longrightarrow> m < dl \<Longrightarrow> drop_oldest buf sz dl m = ([], 0)"
  by (induction buf sz dl m rule: drop_oldest.induct) auto

text \<open>
  Claim C6. A block larger than the capacity is written to a buffer whose counter agrees
  with its chunks: eviction empties the buffer, the block is then stored whole, and the
  occupancy after the write is the block's size, above the capacity.
\<close>

theorem oversized_write_accepted:
  assumes "consistent b" and "0 \<le> maxsize b" and "maxsize b < int (length data)"
  shows "buffer (AudioBuffer_write b data) = [data]
       \<and> current_size (AudioBuffer_write b data) = int (length data)
       \<and> maxsize b < current_size (AudioBuffer_write b data)"
proof -
  from assms have ne: "data \<noteq> []" by auto
  from assms(1) have "current_size b = int (length (concat (buffer b)))"
    by (simp add: consistent_def frames_of_def)
  then have "drop_oldest (buffer b) (current_size b) (int (length data)) (maxsize b) = ([], 0)"
    using assms(3) by (rule drop_oldest_all)
  moreover have "current_size b + int (length data) > maxsize b"
    using assms(1,3) by (simp add: consistent_def)
  ultimately show ?thesis
    using ne assms(3) by (simp add: AudioBuffer_write_def)
qed

text \<open>A block of 5 frames written to a buffer of capacity 4 that holds 2 frames.\<close>

theorem oversized_write_accepted_witness:
  "consistent (AudioBuffer_write (AudioBuffer_init 4) [(1, 1), (2, 2)])
   \<and> 0 \<le> maxsize (AudioBuffer_write (AudioBuffer_init 4) [(1, 1), (2, 2)])
   \<and> maxsize (AudioBuffer_write (AudioBuffer_init 4) [(1, 1), (2, 2)]) < int (length (replicate 5 (3::real, 3::real)))
   \<and> buffer (AudioBuffer_write (AudioBuffer_write (AudioBuffer_init 4) [(1, 1), (2, 2)]) (replicate 5 (3, 3)))
       = [replicate 5 (3, 3)]
   \<and> current_size (AudioBuffer_write (AudioBuffer_write (AudioBuffer_init 4) [(1, 1), (2, 2)]) (replicate 5 (3, 3))) = 5"
  using oversized_write_accepted
    [of "AudioBuffer_write (AudioBuffer_init 4) [(1, 1), (2, 2)]" "replicate 5 (3, 3)"]
  by (simp add: AudioBuffer_init_def consistent_def frames_of_def AudioBuffer_write_def)

lemma read_loop_result:
  "length result = frames \<Longrightarrow> ro \<le> frames \<Longrightarrow>
   fst (read_loop buf sz result ro frames)
     = take ro result @ take (frames - ro) (concat buf)
         @ drop (ro + min (frames - ro) (length (concat buf))) result"
proof (induction buf sz result ro frames rule: read_loop.induct)
  case (1 sz result read_offset frames)
  then show ?case by simp
next
  case (2 chunk rest sz result read_offset frames)
  show ?case
  proof (cases "read_offset < frames")
    case False
    with 2 show ?thesis by simp
  next
    case lt: True
    show ?thesis
    proof (cases "length chunk \<le> frames - read_offset")
      case True
      let ?r = "take read_offset result @ chunk @ drop (read_offset + length chunk) result"
      have len: "length ?r = frames" using 2 True lt by simp
      have le: "read_offset + length chunk \<le> frames" using True lt by simp
      have t: "take (read_offset + length chunk) ?r = take read_offset result @ chunk"
        using 2 lt by simp
      have d: "\<And>x. drop (read_offset + length chunk + x) ?r = drop (read_offset + length chunk + x) result"
        using 2 lt True by (simp add: add.commute add.left_commute)
      have "fst (read_loop (chunk # rest) sz result read_offset frames)
          = fst (read_loop rest (sz - int (length chunk)) ?r (read_offset + length chunk) frames)"
        using lt True by simp
      also have "\<dots> = take (read_offset + length chunk) ?r
           @ take (frames - (read_offset + length chunk)) (concat rest)
           @ drop (read_offset + length chunk
                + min (frames - (read_offset + length chunk)) (length (concat rest))) ?r"
        using lt True len le by (intro "2.IH"(1)) auto
      also have "\<dots> = take read_offset result @ take (frames - read_offset) (concat (chunk # rest))
           @ drop (read_offset + min (frames - read_offset) (length (concat (chunk # rest)))) result"
        using True lt by (simp only: t d) (simp add: min_def add.assoc)
      finally show ?thesis .
    next
      case False
      let ?rem = "frames - read_offset"
      let ?r = "take read_offset result @ take ?rem chunk @ drop (read_offset + ?rem) result"
      have "fst (read_loop (chunk # rest) sz result read_offset frames)
          = fst (read_loop (drop ?rem chunk # rest) (sz - int ?rem) ?r (read_offset + ?rem) frames)"
        using lt False by simp
      also have "\<dots> = ?r"
        using lt by simp
      also have "\<dots> = take read_offset result @ take (frames - read_offset) (concat (chunk # rest))
           @ drop (read_offset + min (frames - read_offset) (length (concat (chunk # rest)))) result"
        using False lt by (simp add: min_def)
      finally show ?thesis .
    qed
  qed
qed

lemma read_loop_rest:
  "ro \<le> frames \<Longrightarrow>
   concat (fst (snd (read_loop buf sz result ro frames))) = drop (frames - ro) (concat buf)"
proof (induction buf sz result ro frames rule: read_loop.induct)
  case (1 sz result read_offset frames)
  then show ?case by simp
next
  case (2 chunk rest sz result read_offset frames)
  then show ?case by (auto simp: not_le)
qed

lemma read_loop_size:
  "ro \<le> frames \<Longrightarrow>
   snd (snd (read_loop buf sz result ro frames))
     = sz - int (min (frames - ro) (length (concat buf)))"
proof (induction buf sz result ro frames rule: read_loop.induct)
  case (1 sz result read_offset frames)
  then show ?case by simp
next
  case (2 chunk rest sz result read_offset frames)
  then show ?case by (auto simp: not_le min_def)
qed

lemma zeros_length: "length (zeros n) = n"
  by (simp add: zeros_def)

lemma read_spec:
  assumes c: "consistent b" and n: "0 \<le> n"
  shows "\<exists>b'. AudioBuffer_read b n
            = Inr (take (nat n) (frames_of b) @ zeros (nat n - length (frames_of b)), b')
          \<and> frames_of b' = drop (nat n) (frames_of b)
          \<and> current_size b' = current_size b - min n (current_size b)
          \<and> maxsize b' = maxsize b"
proof (cases "buffer b = [] \<or> current_size b = 0")
  case True
  with c have "frames_of b = []" by (auto simp: consistent_def frames_of_def)
  with True n c show ?thesis by (auto simp: AudioBuffer_read_def consistent_def)
next
  case False
  obtain res buf sz where r:
    "read_loop (buffer b) (current_size b) (zeros (nat n)) 0 (nat n) = (res, buf, sz)"
    by (cases "read_loop (buffer b) (current_size b) (zeros (nat n)) 0 (nat n)")
  let ?b' = "b\<lparr>buffer := buf, current_size := sz\<rparr>"
  have rd: "AudioBuffer_read b n = Inr (res, ?b')"
    using False n r by (simp add: AudioBuffer_read_def)
  have "res = fst (read_loop (buffer b) (current_size b) (zeros (nat n)) 0 (nat n))"
    using r by simp
  also have "\<dots> = take 0 (zeros (nat n)) @ take (nat n - 0) (concat (buffer b))
       @ drop (0 + min (nat n - 0) (length (concat (buffer b)))) (zeros (nat n))"
    by (rule read_loop_result) (simp_all add: zeros_length)
  also have "\<dots> = take (nat n) (frames_of b) @ zeros (nat n - length (frames_of b))"
    by (simp add: zeros_def frames_of_def min_def)
  finally have res: "res = take (nat n) (frames_of b) @ zeros (nat n - length (frames_of b))" .
  have "concat (fst (snd (read_loop (buffer b) (current_size b) (zeros (nat n)) 0 (nat n))))
      = drop (nat n - 0) (concat (buffer b))"
    by (rule read_loop_rest) simp
  with r have fr: "frames_of ?b' = drop (nat n) (frames_of b)"
    by (simp add: frames_of_def)
  have "snd (snd (read_loop (buffer b) (current_size b) (zeros (nat n)) 0 (nat n)))
      = current_size b - int (min (nat n - 0) (length (concat (buffer b))))"
    by (rule read_loop_size) simp
  moreover have "int (min (nat n) (length (concat (buffer b)))) = min n (current_size b)"
    using c n by (simp add: consistent_def frames_of_def)
  ultimately have sz: "current_size ?b' = current_size b - min n (current_size b)"
    using r by simp
  from rd res fr sz show ?thesis by auto
qed

lemma consistent_init: "consistent (AudioBuffer_init m)"
  by (simp add: consistent_def frames_of_def AudioBuffer_init_def)

lemma consistent_clear: "consistent (AudioBuffer_clear b)"
  by (simp add: consistent_def frames_of_def AudioBuffer_clear_def)

lemma consistent_write: "consistent b \<Longrightarrow> consistent (AudioBuffer_write b d)"
  by (auto simp: AudioBuffer_write_def consistent_def frames_of_def Let_def
      split: prod.splits dest: drop_oldest_size)

lemma consistent_read:
  assumes "consistent b" and "AudioBuffer_read b n = Inr (res, b')"
  shows "consistent b'"
proof -
  from assms(2) have n: "0 \<le> n" by (auto simp: AudioBuffer_read_def split: if_splits)
  from read_spec [OF assms(1) n] assms(2) assms(1) n show ?thesis
    by (auto simp: consistent_def min_def)
qed

subsection \<open>Reads\<close>

text \<open>
  Claim C2. A read of \<open>n \<ge> 0\<close> frames from a buffer whose counter agrees with its
  chunks returns a block of exactly \<open>n\<close> frames. When the occupancy is below \<open>n\<close>, the
  block is the buffered frames followed by silence. When \<open>n\<close> falls inside the front
  chunk, the block is the first \<open>n\<close> frames of that chunk, the rest of the chunk stays at
  the front of the buffer, and the occupancy drops by \<open>n\<close>.
\<close>

theorem read_pads_with_silence:
  assumes "consistent b" and "0 \<le> n"
  shows "\<exists>res b'. AudioBuffer_read b n = Inr (res, b') \<and> int (length res) = n
      \<and> (current_size b < n \<longrightarrow> res = frames_of b @ zeros (nat (n - current_size b)))
      \<and> (buffer b \<noteq> [] \<and> 0 < n \<and> n < int (length (hd (buffer b))) \<longrightarrow>
           res = take (nat n) (hd (buffer b))
           \<and> buffer b' = drop (nat n) (hd (buffer b)) # tl (buffer b)
           \<and> current_size b' = current_size b - n)"
proof -
  from read_spec [OF assms] obtain b' where
    rd: "AudioBuffer_read b n
           = Inr (take (nat n) (frames_of b) @ zeros (nat n - length (frames_of b)), b')"
    and sz: "current_size b' = current_size b - min n (current_size b)"
    by blast
  let ?res = "take (nat n) (frames_of b) @ zeros (nat n - length (frames_of b))"
  have len: "int (length ?res) = n"
    using assms(2) by (simp add: zeros_length min_def)
  have pad: "current_size b < n \<longrightarrow> ?res = frames_of b @ zeros (nat (n - current_size b))"
    using assms by (auto simp: consistent_def nat_diff_distrib)
  have split: "buffer b \<noteq> [] \<and> 0 < n \<and> n < int (length (hd (buffer b))) \<longrightarrow>
           ?res = take (nat n) (hd (buffer b))
           \<and> buffer b' = drop (nat n) (hd (buffer b)) # tl (buffer b)
           \<and> current_size b' = current_size b - n"
  proof (intro impI, elim conjE)
    assume ne: "buffer b \<noteq> []" and pos: "0 < n" and lt: "n < int (length (hd (buffer b)))"
    then obtain c cs where b: "buffer b = c # cs" by (cases "buffer b") auto
    with lt pos have ltc: "nat n < length c" by simp
    with b assms(1) have "current_size b \<noteq> 0" by (simp add: consistent_def frames_of_def)
    with b pos ltc have "AudioBuffer_read b n
        = Inr (take (nat n) c @ drop (nat n) (zeros (nat n)),
               b\<lparr>buffer := drop (nat n) c # cs, current_size := current_size b - int (nat n)\<rparr>)"
      by (simp add: AudioBuffer_read_def)
    with rd b pos show "?res = take (nat n) (hd (buffer b))
           \<and> buffer b' = drop (nat n) (hd (buffer b)) # tl (buffer b)
           \<and> current_size b' = current_size b - n"
      by (auto simp: zeros_def)
  qed
  from rd len pad split show ?thesis by blast
qed

text \<open>
  Claim C10. A read of \<open>n \<ge> 0\<close> frames from a buffer whose counter agrees with its
  chunks removes the first \<open>min n occupancy\<close> frames and keeps the others in order; the
  occupancy drops by that number, the capacity is unchanged and the counter still agrees
  with the chunks. A read of 0 frames returns the empty block and the buffer as it was,
  and a read from a buffer without chunks returns silence and leaves it as it was.
\<close>

theorem read_consumes_front:
  "(consistent b \<and> 0 \<le> n \<longrightarrow>
      (\<exists>res b'. AudioBuffer_read b n = Inr (res, b')
         \<and> frames_of b' = drop (nat (min n (current_size b))) (frames_of b)
         \<and> current_size b' = current_size b - min n (current_size b)
         \<and> maxsize b' = maxsize b \<and> consistent b'))
   \<and> AudioBuffer_read b 0 = Inr ([], b)
   \<and> (buffer b = [] \<and> 0 \<le> n \<longrightarrow> AudioBuffer_read b n = Inr (zeros (nat n), b))"
proof (intro conjI impI)
  assume a: "consistent b \<and> 0 \<le> n"
  then have c: "consistent b" and n: "0 \<le> n" by simp_all
  from read_spec [OF c n] obtain b' where
    rd: "AudioBuffer_read b n
           = Inr (take (nat n) (frames_of b) @ zeros (nat n - length (frames_of b)), b')"
    and fr: "frames_of b' = drop (nat n) (frames_of b)"
    and sz: "current_size b' = current_size b - min n (current_size b)"
    and mx: "maxsize b' = maxsize b"
    by blast
  from fr c n have "frames_of b' = drop (nat (min n (current_size b))) (frames_of b)"
    by (auto simp: consistent_def min_def)
  moreover from c rd have "consistent b'" by (rule consistent_read)
  ultimately show "\<exists>res b'. AudioBuffer_read b n = Inr (res, b')
         \<and> frames_of b' = drop (nat (min n (current_size b))) (frames_of b)
         \<and> current_size b' = current_size b - min n (current_size b)
         \<and> maxsize b' = maxsize b \<and> consistent b'"
    using rd sz mx by blast
next
  show "AudioBuffer_read b 0 = Inr ([], b)"
    by (cases "buffer b") (auto simp: AudioBuffer_read_def zeros_def)
next
  assume "buffer b = [] \<and> 0 \<le> n"
  then show "AudioBuffer_read b n = Inr (zeros (nat n), b)"
    by (simp add: AudioBuffer_read_def)
qed

text \<open>
  A read of 4 frames from a buffer holding 2, and a read of 2 frames from a buffer whose
  only chunk has 3.
\<close>

theorem read_pads_with_silence_witness:
  "(\<exists>res b'. AudioBuffer_read (AudioBuffer_write (AudioBuffer_init 10) [(1, 1), (2, 2)]) 4 = Inr (res, b')
       \<and> int (length res) = 4 \<and> res = [(1, 1), (2, 2), (0, 0), (0, 0)])
   \<and> (\<exists>res b'. AudioBuffer_read (AudioBuffer_write (AudioBuffer_init 10) [(1, 1), (2, 2), (3, 3)]) 2 = Inr (res, b')
       \<and> res = [(1, 1), (2, 2)] \<and> buffer b' = [[(3, 3)]] \<and> current_size b' = 1)"
proof
  let ?b = "AudioBuffer_write (AudioBuffer_init 10) [(1, 1), (2, 2)]"
  have c: "consistent ?b"
    by (simp add: AudioBuffer_write_def AudioBuffer_init_def consistent_def frames_of_def)
  have n: "(0::int) \<le> 4" by simp
  have lt: "current_size ?b < 4"
    by (simp add: AudioBuffer_write_def AudioBuffer_init_def)
  have z: "frames_of ?b @ zeros (nat (4 - current_size ?b)) = [(1, 1), (2, 2), (0, 0), (0, 0)]"
    by (simp add: AudioBuffer_write_def AudioBuffer_init_def frames_of_def zeros_def numeral_eq_Suc)
  from read_pads_with_silence [OF c n] lt z
  show "\<exists>res b'. AudioBuffer_read ?b 4 = Inr (res, b')
       \<and> int (length res) = 4 \<and> res = [(1, 1), (2, 2), (0, 0), (0, 0)]"
    by auto
next
  let ?b = "AudioBuffer_write (AudioBuffer_init 10) [(1, 1), (2, 2), (3, 3)]"
  have c: "consistent ?b"
    by (simp add: AudioBuffer_write_def AudioBuffer_init_def consistent_def frames_of_def)
  have n: "(0::int) \<le> 2" by simp
  have h: "buffer ?b \<noteq> [] \<and> (0::int) < 2 \<and> 2 < int (length (hd (buffer ?b)))"
    by (simp add: AudioBuffer_write_def AudioBuffer_init_def)
  have t: "take (nat 2) (hd (buffer ?b)) = [(1, 1), (2, 2)]"
    "drop (nat 2) (hd (buffer ?b)) # tl (buffer ?b) = [[(3, 3)]]"
    "current_size ?b - 2 = 1"
    by (simp_all add: AudioBuffer_write_def AudioBuffer_init_def numeral_eq_Suc)
  from read_pads_with_silence [OF c n] h t
  show "\<exists>res b'. AudioBuffer_read ?b 2 = Inr (res, b')
       \<and> res = [(1, 1), (2, 2)] \<and> buffer b' = [[(3, 3)]] \<and> current_size b' = 1"
    by auto
qed

text \<open>A read of 2 frames from a buffer holding 3, and a read of 3 from an empty buffer.\<close>

theorem read_consumes_front_witness:
  "(\<exists>res b'. AudioBuffer_read (AudioBuffer_write (AudioBuffer_init 10) [(1, 1), (2, 2), (3, 3)]) 2 = Inr (res, b')
       \<and> frames_of b' = [(3, 3)] \<and> current_size b' = 1)
   \<and> AudioBuffer_read (AudioBuffer_init 10) 3 = Inr (zeros (nat 3), AudioBuffer_init 10)"
proof
  let ?b = "AudioBuffer_write (AudioBuffer_init 10) [(1, 1), (2, 2), (3, 3)]"
  have c: "consistent ?b \<and> (0::int) \<le> 2"
    by (simp add: AudioBuffer_write_def AudioBuffer_init_def consistent_def frames_of_def)
  have t: "drop (nat (min 2 (current_size ?b))) (frames_of ?b) = [(3, 3)]"
    "current_size ?b - min 2 (current_size ?b) = 1"
    by (simp_all add: AudioBuffer_write_def AudioBuffer_init_def frames_of_def numeral_eq_Suc)
  from read_consumes_front [of ?b 2] c t
  show "\<exists>res b'. AudioBuffer_read ?b 2 = Inr (res, b')
       \<and> frames_of b' = [(3, 3)] \<and> current_size b' = 1"
    by auto
next
  have e: "buffer (AudioBuffer_init 10) = [] \<and> (0::int) \<le> 3"
    by (simp add: AudioBuffer_init_def)
  from read_consumes_front [of "AudioBuffer_init 10" 3] e
  show "AudioBuffer_read (AudioBuffer_init 10) 3 = Inr (zeros (nat 3), AudioBuffer_init 10)"
    by blast
qed

section \<open>Properties of the mixer\<close>

lemma read_loop_length:
  assumes "length result = frames" and "ro \<le> frames"
  shows "length (fst (read_loop buf sz result ro frames)) = frames"
  using assms by (simp add: read_loop_result [OF assms] min_def)

lemma read_length:
  assumes "AudioBuffer_read b n = Inr (res, b')"
  shows "length res = nat n"
proof (cases "buffer b = [] \<or> current_size b = 0")
  case True
  with assms show ?thesis
    by (auto simp: AudioBuffer_read_def zeros_length split: if_splits)
next
  case False
  have "length (fst (read_loop (buffer b) (current_size b) (zeros (nat n)) 0 (nat n))) = nat n"
    by (rule read_loop_length) (simp_all add: zeros_length)
  with False assms show ?thesis
    by (auto simp: AudioBuffer_read_def split: if_splits prod.splits)
qed

lemma read_or_silence_length:
  "read_or_silence ob n = Inr (res, ob') \<Longrightarrow> length res = nat n"
  by (auto simp: read_or_silence_def zeros_length split: option.splits if_splits sum.splits
      dest: read_length)

lemma read_or_silence_defined:
  "0 \<le> n \<Longrightarrow> \<exists>res ob'. read_or_silence ob n = Inr (res, ob')"
  by (auto simp: read_or_silence_def AudioBuffer_read_def split: option.splits sum.splits prod.splits)

lemma mix_length:
  "length music = length tts \<Longrightarrow> length (mix vol music tts) = length tts"
  by (simp add: mix_def clip_block_def add_blocks_def scale_def Let_def)

lemma mix_nth:
  assumes "length music = length tts" and "i < length tts"
  shows "mix vol music tts ! i =
     (let k = (if tts_active tts then vol * (2 / 10) else vol) in
      (clip (fst (music ! i) * k + fst (tts ! i)) (- (95 / 100)) (95 / 100),
       clip (snd (music ! i) * k + snd (tts ! i)) (- (95 / 100)) (95 / 100)))"
  using assms
  by (simp add: mix_def clip_block_def add_blocks_def scale_def Let_def split_beta mult.assoc)

lemma mix_samples_range:
  "s \<in> set (samples (mix vol music tts)) \<Longrightarrow> - (95 / 100) \<le> s \<and> s \<le> 95 / 100"
  by (auto simp: samples_def mix_def clip_block_def Let_def clip_def)

lemma audio_callback_Inr:
  assumes "audio_callback s frames = Inr (out, s')"
  obtains music mb tts tb where
    "read_or_silence (music_buffer s) frames = Inr (music, mb)"
    "read_or_silence (tts_buffer s) frames = Inr (tts, tb)"
    "out = mix (volume s) music tts"
    "s' = s\<lparr>music_buffer := mb, tts_buffer := tb\<rparr>"
    "length music = nat frames" "length tts = nat frames"
  using assms
  by (auto simp: audio_callback_def split: sum.splits prod.splits dest: read_or_silence_length)

text \<open>
  Claim C3. In a mixer invocation that returns, let \<open>music\<close> and \<open>tts\<close> be the two
  blocks read. If some sample of \<open>tts\<close> has absolute value above 0.001, every output
  frame is the music frame scaled by the volume and by 0.2, plus the announcement frame,
  limited; if no sample has, every output frame is the music frame scaled by the volume
  only, plus the announcement frame, limited. The choice is made once for the block.
\<close>

theorem ducking_is_per_block:
  assumes "audio_callback s frames = Inr (out, s')"
  shows "\<exists>music mb tts tb.
      read_or_silence (music_buffer s) frames = Inr (music, mb)
    \<and> read_or_silence (tts_buffer s) frames = Inr (tts, tb)
    \<and> length out = nat frames
    \<and> ((\<exists>x\<in>set (samples tts). \<bar>x\<bar> > 1 / 1000) \<longrightarrow>
         (\<forall>i<nat frames. out ! i = expected_frame (volume s * (2 / 10)) (music ! i) (tts ! i)))
    \<and> (\<not> (\<exists>x\<in>set (samples tts). \<bar>x\<bar> > 1 / 1000) \<longrightarrow>
         (\<forall>i<nat frames. out ! i = expected_frame (volume s) (music ! i) (tts ! i)))"
proof -
  from assms obtain music mb tts tb where
    m: "read_or_silence (music_buffer s) frames = Inr (music, mb)"
    and t: "read_or_silence (tts_buffer s) frames = Inr (tts, tb)"
    and out: "out = mix (volume s) music tts"
    and lm: "length music = nat frames" and lt: "length tts = nat frames"
    by (rule audio_callback_Inr)
  have act: "tts_active tts \<longleftrightarrow> (\<exists>x\<in>set (samples tts). \<bar>x\<bar> > 1 / 1000)"
    by (simp add: tts_active_def list_ex_iff)
  have len: "length out = nat frames"
    using out lm lt by (simp add: mix_length)
  have nth: "\<forall>i<nat frames. out ! i =
      expected_frame (if tts_active tts then volume s * (2 / 10) else volume s) (music ! i) (tts ! i)"
    using out lm lt by (simp add: mix_nth expected_frame_def Let_def)
  from m t len nth act show ?thesis
    by (intro exI [of _ music] exI [of _ mb] exI [of _ tts] exI [of _ tb]) simp
qed

text \<open>
  On real samples the mixer returns for every frame count that is not negative, and its
  output is within the limits.
\<close>

lemma audio_callback_defined:
  assumes "0 \<le> frames"
  shows "\<exists>out s'. audio_callback s frames = Inr (out, s') \<and> length out = nat frames
     \<and> (\<forall>x\<in>set (samples out). - (95 / 100) \<le> x \<and> x \<le> 95 / 100)"
proof -
  from assms obtain music mb where
    m: "read_or_silence (music_buffer s) frames = Inr (music, mb)"
    using read_or_silence_defined by blast
  from assms obtain tts tb where
    t: "read_or_silence (tts_buffer s) frames = Inr (tts, tb)"
    using read_or_silence_defined by blast
  let ?out = "mix (volume s) music tts"
  have cb: "audio_callback s frames = Inr (?out, s\<lparr>music_buffer := mb, tts_buffer := tb\<rparr>)"
    using m t by (simp add: audio_callback_def)
  have "length music = nat frames" "length tts = nat frames"
    using m t by (auto dest: read_or_silence_length)
  then have "length ?out = nat frames" by (simp add: mix_length)
  moreover have "\<forall>x\<in>set (samples ?out). - (95 / 100) \<le> x \<and> x \<le> 95 / 100"
    using mix_samples_range by blast
  ultimately show ?thesis using cb by blast
qed

lemma mix_zero_volume:
  assumes "length music = length tts"
  shows "mix 0 music tts = clip_block tts (- (95 / 100)) (95 / 100)"
proof (rule nth_equalityI)
  show "length (mix 0 music tts) = length (clip_block tts (- (95 / 100)) (95 / 100))"
    using assms by (simp add: mix_length clip_block_def)
next
  fix i assume "i < length (mix 0 music tts)"
  with assms have i: "i < length tts" by (simp add: mix_length)
  with assms show "mix 0 music tts ! i = clip_block tts (- (95 / 100)) (95 / 100) ! i"
    by (simp add: mix_nth clip_block_def split_beta)
qed

text \<open>
  Claim C7. For a level from 0 to 200 the volume command stores \<open>level / 100\<close> as the
  volume. Level 150 gives the factor 1.5, the factor the mixer applies to the music
  before the limiter; level 0 gives the factor 0, with which the mixer's output is the
  limited announcement block alone. A level below 0 or above 200 is rejected and the
  state is unchanged.
\<close>

theorem volume_command_sets_scale:
  "(0 \<le> level \<and> level \<le> 200 \<longrightarrow>
      volume_command s level = (s\<lparr>volume := real_of_int level / 100\<rparr>, VolumeSet level))
   \<and> volume (fst (volume_command s 150)) = 15 / 10
   \<and> (length music = length tts \<and> i < length tts \<and> \<not> tts_active tts \<longrightarrow>
        mix (volume (fst (volume_command s 150))) music tts ! i
          = expected_frame (15 / 10) (music ! i) (tts ! i))
   \<and> volume (fst (volume_command s 0)) = 0
   \<and> (length music = length tts \<longrightarrow>
        mix (volume (fst (volume_command s 0))) music tts
          = clip_block tts (- (95 / 100)) (95 / 100))
   \<and> (level < 0 \<or> level > 200 \<longrightarrow> volume_command s level = (s, VolumeRejected))"
proof -
  have v150: "volume (fst (volume_command s 150)) = 15 / 10"
    by (simp add: volume_command_def)
  have v0: "volume (fst (volume_command s 0)) = 0"
    by (simp add: volume_command_def)
  have "length music = length tts \<and> i < length tts \<and> \<not> tts_active tts \<longrightarrow>
        mix (15 / 10) music tts ! i = expected_frame (15 / 10) (music ! i) (tts ! i)"
    by (simp add: mix_nth expected_frame_def)
  moreover have "length music = length tts \<longrightarrow>
        mix 0 music tts = clip_block tts (- (95 / 100)) (95 / 100)"
    by (simp add: mix_zero_volume)
  moreover have "0 \<le> level \<and> level \<le> 200 \<longrightarrow>
      volume_command s level = (s\<lparr>volume := real_of_int level / 100\<rparr>, VolumeSet level)"
    by (auto simp: volume_command_def)
  moreover have "level < 0 \<or> level > 200 \<longrightarrow> volume_command s level = (s, VolumeRejected)"
    by (auto simp: volume_command_def)
  ultimately show ?thesis
    unfolding v150 v0 by simp
qed

lemma read_single_chunk:
  "AudioBuffer_read (AudioBuffer_write (AudioBuffer_init 480000) [f]) 1
     = Inr ([f], \<lparr>buffer = [], maxsize = 480000, current_size = 0\<rparr>)"
  by (simp add: AudioBuffer_read_def AudioBuffer_write_def AudioBuffer_init_def zeros_def)

text \<open>
  One frame of music at 0.5 with an announcement frame at 0.1, and the same music with no
  announcement buffer.
\<close>

theorem ducking_is_per_block_witness:
  "(\<exists>out s'. audio_callback
        (initial_state\<lparr>music_buffer := Some (AudioBuffer_write (AudioBuffer_init 480000) [(1 / 2, 1 / 2)]),
                       tts_buffer := Some (AudioBuffer_write (AudioBuffer_init 480000) [(1 / 10, 0)])\<rparr>) 1
        = Inr (out, s')
      \<and> out ! 0 = expected_frame (1 * (2 / 10)) (1 / 2, 1 / 2) (1 / 10, 0))
   \<and> (\<exists>out s'. audio_callback
        (initial_state\<lparr>music_buffer := Some (AudioBuffer_write (AudioBuffer_init 480000) [(1 / 2, 1 / 2)])\<rparr>) 1
        = Inr (out, s')
      \<and> out ! 0 = expected_frame 1 (1 / 2, 1 / 2) (0, 0))"
proof
  let ?s = "initial_state\<lparr>music_buffer := Some (AudioBuffer_write (AudioBuffer_init 480000) [(1 / 2, 1 / 2)]),
                       tts_buffer := Some (AudioBuffer_write (AudioBuffer_init 480000) [(1 / 10, 0)])\<rparr>"
  have rm: "read_or_silence (music_buffer ?s) 1
      = Inr ([(1 / 2, 1 / 2)], Some \<lparr>buffer = [], maxsize = 480000, current_size = 0\<rparr>)"
    by (simp add: read_or_silence_def read_single_chunk)
  have rt: "read_or_silence (tts_buffer ?s) 1
      = Inr ([(1 / 10, 0)], Some \<lparr>buffer = [], maxsize = 480000, current_size = 0\<rparr>)"
    by (simp add: read_or_silence_def read_single_chunk)
  obtain out s' where cb: "audio_callback ?s 1 = Inr (out, s')"
    by (simp add: audio_callback_def read_or_silence_def read_single_chunk initial_state_def zeros_def)
  from ducking_is_per_block [OF cb] rm rt
  have "(\<exists>x\<in>set (samples [(1 / 10, 0)]). \<bar>x\<bar> > 1 / 1000) \<longrightarrow>
         (\<forall>i<nat 1. out ! i = expected_frame (volume ?s * (2 / 10)) ([(1 / 2, 1 / 2)] ! i) ([(1 / 10, 0)] ! i))"
    by auto
  then have "out ! 0 = expected_frame (1 * (2 / 10)) (1 / 2, 1 / 2) (1 / 10, 0)"
    by (simp add: samples_def initial_state_def)
  with cb show "\<exists>out s'. audio_callback ?s 1 = Inr (out, s')
      \<and> out ! 0 = expected_frame (1 * (2 / 10)) (1 / 2, 1 / 2) (1 / 10, 0)"
    by blast
next
  let ?s = "initial_state\<lparr>music_buffer := Some (AudioBuffer_write (AudioBuffer_init 480000) [(1 / 2, 1 / 2)])\<rparr>"
  have rm: "read_or_silence (music_buffer ?s) 1
      = Inr ([(1 / 2, 1 / 2)], Some \<lparr>buffer = [], maxsize = 480000, current_size = 0\<rparr>)"
    by (simp add: read_or_silence_def read_single_chunk)
  have rt: "read_or_silence (tts_buffer ?s) 1 = Inr ([(0, 0)], None)"
    by (simp add: read_or_silence_def initial_state_def zeros_def)
  obtain out s' where cb: "audio_callback ?s 1 = Inr (out, s')"
    by (simp add: audio_callback_def read_or_silence_def read_single_chunk initial_state_def zeros_def)
  from ducking_is_per_block [OF cb] rm rt
  have "\<not> (\<exists>x\<in>set (samples [(0, 0)]). \<bar>x\<bar> > 1 / 1000) \<longrightarrow>
         (\<forall>i<nat 1. out ! i = expected_frame (volume ?s) ([(1 / 2, 1 / 2)] ! i) ([(0, 0)] ! i))"
    by auto
  then have "out ! 0 = expected_frame 1 (1 / 2, 1 / 2) (0, 0)"
    by (simp add: samples_def initial_state_def)
  with cb show "\<exists>out s'. audio_callback ?s 1 = Inr (out, s')
      \<and> out ! 0 = expected_frame 1 (1 / 2, 1 / 2) (0, 0)"
    by blast
qed

text \<open>Levels 150, 0, 201 and -1 on the initial state.\<close>

theorem volume_command_sets_scale_witness:
  "volume_command initial_state 150 = (initial_state\<lparr>volume := real_of_int 150 / 100\<rparr>, VolumeSet 150)
   \<and> mix (volume (fst (volume_command initial_state 150))) [(1 / 2, 1 / 2)] [(0, 0)] ! 0
       = expected_frame (15 / 10) (1 / 2, 1 / 2) (0, 0)
   \<and> mix (volume (fst (volume_command initial_state 0))) [(1 / 2, 1 / 2)] [(1 / 10, 0)]
       = clip_block [(1 / 10, 0)] (- (95 / 100)) (95 / 100)
   \<and> volume_command initial_state 201 = (initial_state, VolumeRejected)
   \<and> volume_command initial_state (- 1) = (initial_state, VolumeRejected)"
proof -
  note t1 = volume_command_sets_scale [of 150 initial_state "[(1 / 2, 1 / 2)]" "[(0, 0)]" 0]
  note t2 = volume_command_sets_scale [of 201 initial_state "[(1 / 2, 1 / 2)]" "[(1 / 10, 0)]" 0]
  note t3 = volume_command_sets_scale [of "- 1" initial_state "[(1 / 2, 1 / 2)]" "[(1 / 10, 0)]" 0]
  have h1: "(0::int) \<le> 150 \<and> (150::int) \<le> 200" by simp
  have h2: "length [(1 / 2 :: real, 1 / 2 :: real)] = length [(0::real, 0::real)]
      \<and> 0 < length [(0::real, 0::real)] \<and> \<not> tts_active [(0, 0)]"
    by (simp add: tts_active_def samples_def)
  have h3: "length [(1 / 2 :: real, 1 / 2 :: real)] = length [(1 / 10 :: real, 0::real)]" by simp
  have h4: "(201::int) < 0 \<or> (201::int) > 200" by simp
  have h5: "(- 1::int) < 0 \<or> (- 1::int) > 200" by simp
  from t1 h1 have a: "volume_command initial_state 150
      = (initial_state\<lparr>volume := real_of_int 150 / 100\<rparr>, VolumeSet 150)"
    by blast
  from t1 h2 have "mix (volume (fst (volume_command initial_state 150))) [(1 / 2, 1 / 2)] [(0, 0)] ! 0
       = expected_frame (15 / 10) ([(1 / 2, 1 / 2)] ! 0) ([(0, 0)] ! 0)"
    by blast
  then have b: "mix (volume (fst (volume_command initial_state 150))) [(1 / 2, 1 / 2)] [(0, 0)] ! 0
       = expected_frame (15 / 10) (1 / 2, 1 / 2) (0, 0)"
    by simp
  from t2 h3 have c: "mix (volume (fst (volume_command initial_state 0))) [(1 / 2, 1 / 2)] [(1 / 10, 0)]
       = clip_block [(1 / 10, 0)] (- (95 / 100)) (95 / 100)"
    by blast
  from t2 h4 have d: "volume_command initial_state 201 = (initial_state, VolumeRejected)"
    by blast
  from t3 h5 have e: "volume_command initial_state (- 1) = (initial_state, VolumeRejected)"
    by blast
  from a b c d e show ?thesis by blast
qed

subsection \<open>The limiter on float values\<close>

lemma read_loop_frames:
  assumes "length result = frames" and "ro \<le> frames"
  shows "set (fst (read_loop buf sz result ro frames)) \<subseteq> set result \<union> set (concat buf)"
proof -
  have "set (take ro result) \<subseteq> set result"
    and "set (take (frames - ro) (concat buf)) \<subseteq> set (concat buf)"
    and "set (drop (ro + min (frames - ro) (length (concat buf))) result) \<subseteq> set result"
    by (auto dest: in_set_takeD in_set_dropD)
  then show ?thesis
    unfolding read_loop_result [OF assms] by auto
qed

lemma zeros_f_length: "length (zeros_f n) = n"
  by (simp add: zeros_f_def)

lemma read_f_defined:
  "0 \<le> n \<Longrightarrow> \<exists>res b'. AudioBuffer_read_f b n = Inr (res, b')"
  by (auto simp: AudioBuffer_read_f_def split: prod.splits)

lemma read_f_length:
  assumes "AudioBuffer_read_f b n = Inr (res, b')"
  shows "length res = nat n"
proof (cases "buffer b = [] \<or> current_size b = 0")
  case True
  with assms show ?thesis
    by (auto simp: AudioBuffer_read_f_def zeros_f_length split: if_splits)
next
  case False
  have "length (fst (read_loop (buffer b) (current_size b) (zeros_f (nat n)) 0 (nat n))) = nat n"
    by (rule read_loop_length) (simp_all add: zeros_f_length)
  with False assms show ?thesis
    by (auto simp: AudioBuffer_read_f_def split: if_splits prod.splits)
qed

lemma read_f_frames:
  assumes "AudioBuffer_read_f b n = Inr (res, b')"
  shows "set res \<subseteq> insert (Num 0, Num 0) (set (concat (buffer b)))"
proof (cases "buffer b = [] \<or> current_size b = 0")
  case True
  with assms show ?thesis
    by (auto simp: AudioBuffer_read_f_def zeros_f_def split: if_splits)
next
  case False
  have "set (fst (read_loop (buffer b) (current_size b) (zeros_f (nat n)) 0 (nat n)))
      \<subseteq> set (zeros_f (nat n)) \<union> set (concat (buffer b))"
    by (rule read_loop_frames) (simp_all add: zeros_f_length)
  moreover have "set (zeros_f (nat n)) \<subseteq> {(Num 0, Num 0)}"
    by (auto simp: zeros_f_def)
  ultimately have "set (fst (read_loop (buffer b) (current_size b) (zeros_f (nat n)) 0 (nat n)))
      \<subseteq> insert (Num 0, Num 0) (set (concat (buffer b)))"
    by blast
  with False assms show ?thesis
    by (auto simp: AudioBuffer_read_f_def split: if_splits prod.splits)
qed

lemma read_f_rest:
  assumes "AudioBuffer_read_f b n = Inr (res, b')"
  shows "set (concat (buffer b')) \<subseteq> set (concat (buffer b))"
proof (cases "buffer b = [] \<or> current_size b = 0")
  case True
  with assms show ?thesis
    by (auto simp: AudioBuffer_read_f_def split: if_splits)
next
  case False
  have "concat (fst (snd (read_loop (buffer b) (current_size b) (zeros_f (nat n)) 0 (nat n))))
      = drop (nat n - 0) (concat (buffer b))"
    by (rule read_loop_rest) simp
  moreover have "set (drop (nat n - 0) (concat (buffer b))) \<subseteq> set (concat (buffer b))"
    by (rule set_drop_subset)
  ultimately have "set (concat (fst (snd (read_loop (buffer b) (current_size b) (zeros_f (nat n)) 0 (nat n)))))
      \<subseteq> set (concat (buffer b))"
    by (simp only:)
  with False assms show ?thesis
    by (auto simp: AudioBuffer_read_f_def split: if_splits prod.splits) blast
qed

lemma num_frames_exist:
  "list_all is_num (samples_f xs) \<Longrightarrow> \<exists>rs. xs = map num_frame rs"
proof (induction xs)
  case Nil
  then show ?case by simp
next
  case (Cons x xs)
  then obtain rs where rs: "xs = map num_frame rs"
    by (auto simp: samples_f_def)
  obtain l r where x: "x = (l, r)" by (cases x)
  with Cons.prems have "is_num l" "is_num r" by (simp_all add: samples_f_def)
  then obtain a c where "l = Num a" "r = Num c"
    by (cases l; cases r) auto
  with x have "x = num_frame (a, c)" by (simp add: num_frame_def)
  with rs have "x # xs = map num_frame ((a, c) # rs)" by simp
  then show ?case by (rule exI)
qed

lemma samples_f_subset:
  "set xs \<subseteq> set ys \<Longrightarrow> set (samples_f xs) \<subseteq> set (samples_f ys)"
  by (auto simp: samples_f_def)

lemma read_or_silence_f_finite:
  assumes "finite_buffer ob" and "0 \<le> n"
  shows "\<exists>rs ob'. read_or_silence_f ob n = Inr (map num_frame rs, ob')
           \<and> length rs = nat n \<and> finite_buffer ob'"
proof (cases ob)
  case None
  have "zeros_f (nat n) = map num_frame (zeros (nat n))"
    by (simp add: zeros_f_def zeros_def num_frame_def)
  with None assms show ?thesis
    by (auto simp: read_or_silence_f_def zeros_length finite_buffer_def
        intro!: exI [of _ "zeros (nat n)"])
next
  case (Some b)
  from assms(2) obtain res b' where rd: "AudioBuffer_read_f b n = Inr (res, b')"
    using read_f_defined by blast
  from rd have sub: "set res \<subseteq> insert (Num 0, Num 0) (set (concat (buffer b)))"
    by (rule read_f_frames)
  from assms(1) Some have fin: "list_all is_num (samples_f (concat (buffer b)))"
    by (simp add: finite_buffer_def)
  have "list_all is_num (samples_f res)"
    unfolding list_all_iff
  proof
    fix x assume "x \<in> set (samples_f res)"
    then obtain l r where lr: "(l, r) \<in> set res" and x: "x = l \<or> x = r"
      by (auto simp: samples_f_def)
    from lr sub have "(l, r) = (Num 0, Num 0) \<or> (l, r) \<in> set (concat (buffer b))" by auto
    then show "is_num x"
    proof
      assume "(l, r) = (Num 0, Num 0)"
      with x show ?thesis by auto
    next
      assume "(l, r) \<in> set (concat (buffer b))"
      then have "l \<in> set (samples_f (concat (buffer b)))" "r \<in> set (samples_f (concat (buffer b)))"
        by (force simp: samples_f_def)+
      with fin x show ?thesis by (auto simp: list_all_iff)
    qed
  qed
  then obtain rs where rs: "res = map num_frame rs"
    using num_frames_exist by blast
  from rd have "length res = nat n" by (rule read_f_length)
  with rs have len: "length rs = nat n" by simp
  from rd have "set (concat (buffer b')) \<subseteq> set (concat (buffer b))" by (rule read_f_rest)
  then have "set (samples_f (concat (buffer b'))) \<subseteq> set (samples_f (concat (buffer b)))"
    by (rule samples_f_subset)
  with fin have "finite_buffer (Some b')"
    by (auto simp: finite_buffer_def list_all_iff)
  with Some rd rs len show ?thesis
    by (auto simp: read_or_silence_f_def)
qed

text \<open>On numbers the float mixer computes what the mixer on real samples computes.\<close>

lemma scale_f_num: "scale_f k (map num_frame xs) = map num_frame (scale k xs)"
  by (simp add: scale_f_def scale_def num_frame_def split_beta)

lemma tts_active_f_num: "tts_active_f (map num_frame xs) = tts_active xs"
  by (induction xs) (auto simp: tts_active_f_def tts_active_def samples_f_def samples_def num_frame_def)

lemma add_blocks_f_num:
  "add_blocks_f (map num_frame xs) (map num_frame ys) = map num_frame (add_blocks xs ys)"
  by (simp add: add_blocks_f_def add_blocks_def num_frame_def zip_map_map split_beta)

lemma clip_block_f_num:
  "clip_block_f (map num_frame xs) lo hi = map num_frame (clip_block xs lo hi)"
  by (simp add: clip_block_f_def clip_block_def num_frame_def split_beta)

lemma mix_f_num:
  "mix_f vol (map num_frame music) (map num_frame tts) = map num_frame (mix vol music tts)"
  by (simp add: mix_f_def mix_def Let_def scale_f_num tts_active_f_num add_blocks_f_num
      clip_block_f_num)

lemma samples_f_num: "samples_f (map num_frame xs) = map Num (samples xs)"
  by (induction xs) (simp_all add: samples_f_def samples_def num_frame_def split_beta)

lemma in_limits_num:
  "list_all in_limits (samples_f (map num_frame xs))
     \<longleftrightarrow> (\<forall>x\<in>set (samples xs). - (95 / 100) \<le> x \<and> x \<le> 95 / 100)"
  by (simp add: samples_f_num list_all_iff)

text \<open>
  Claim C4, as amended. Take a mixer invocation for a frame count that is not negative,
  with any volume, in which every sample held by the two buffers is a finite number.
  The two blocks read hold numbers only, and the invocation returns a block of that many
  frames. Every output frame is the music frame scaled by the volume, and by 0.2 too
  when some announcement sample exceeds 0.001 in magnitude, plus the announcement frame,
  and then limited: the limiter is the last step. Every emitted sample is a number
  between -0.95 and 0.95, and the buffers still hold numbers only.
\<close>

theorem output_clipped_for_finite_samples:
  assumes "finite_buffer (music_buffer s)" and "finite_buffer (tts_buffer s)" and "0 \<le> frames"
  shows "\<exists>out music tts mb tb.
      read_or_silence_f (music_buffer s) frames = Inr (map num_frame music, mb)
    \<and> read_or_silence_f (tts_buffer s) frames = Inr (map num_frame tts, tb)
    \<and> audio_callback_f s frames
        = Inr (map num_frame out, s\<lparr>music_buffer := mb, tts_buffer := tb\<rparr>)
    \<and> length out = nat frames
    \<and> (\<forall>i<nat frames. out ! i =
          expected_frame
            (if (\<exists>x\<in>set (samples tts). \<bar>x\<bar> > 1 / 1000) then volume s * (2 / 10) else volume s)
            (music ! i) (tts ! i))
    \<and> (\<forall>x\<in>set (samples out). - (95 / 100) \<le> x \<and> x \<le> 95 / 100)
    \<and> list_all in_limits (samples_f (map num_frame out))
    \<and> finite_buffer mb \<and> finite_buffer tb"
proof -
  from assms(1,3) obtain music mb where
    m: "read_or_silence_f (music_buffer s) frames = Inr (map num_frame music, mb)"
    and lm: "length music = nat frames" and fm: "finite_buffer mb"
    using read_or_silence_f_finite by blast
  from assms(2,3) obtain tts tb where
    t: "read_or_silence_f (tts_buffer s) frames = Inr (map num_frame tts, tb)"
    and lt: "length tts = nat frames" and ft: "finite_buffer tb"
    using read_or_silence_f_finite by blast
  let ?out = "mix (volume s) music tts"
  have cb: "audio_callback_f s frames
      = Inr (map num_frame ?out, s\<lparr>music_buffer := mb, tts_buffer := tb\<rparr>)"
    using m t by (simp add: audio_callback_f_def mix_f_num)
  have len: "length ?out = nat frames"
    using lm lt by (simp add: mix_length)
  have act: "tts_active tts \<longleftrightarrow> (\<exists>x\<in>set (samples tts). \<bar>x\<bar> > 1 / 1000)"
    by (simp add: tts_active_def list_ex_iff)
  have nth: "\<forall>i<nat frames. ?out ! i =
          expected_frame
            (if (\<exists>x\<in>set (samples tts). \<bar>x\<bar> > 1 / 1000) then volume s * (2 / 10) else volume s)
            (music ! i) (tts ! i)"
    using lm lt by (simp add: mix_nth expected_frame_def Let_def act)
  have rng: "\<forall>x\<in>set (samples ?out). - (95 / 100) \<le> x \<and> x \<le> 95 / 100"
    using mix_samples_range by blast
  then have lim: "list_all in_limits (samples_f (map num_frame ?out))"
    by (simp add: in_limits_num)
  from m t cb len nth rng lim fm ft show ?thesis
    by (intro exI [of _ ?out] exI [of _ music] exI [of _ tts] exI [of _ mb] exI [of _ tb]) simp
qed

text \<open>Music at 3 and -3 with volume 2 comes out at the limits.\<close>

theorem output_clipped_for_finite_samples_witness:
  "audio_callback_f
     \<lparr>paused = False, volume = 2, skip = False, queue = [], current_track = None,
      music_buffer = Some \<lparr>buffer = [[(Num 3, Num (- 3))]], maxsize = 480000, current_size = 1\<rparr>,
      tts_buffer = None\<rparr> 1
   = Inr ([(Num (95 / 100), Num (- (95 / 100)))],
       \<lparr>paused = False, volume = 2, skip = False, queue = [], current_track = None,
        music_buffer = Some \<lparr>buffer = [], maxsize = 480000, current_size = 0\<rparr>,
        tts_buffer = None\<rparr>)
   \<and> (\<exists>out s'. audio_callback_f
     \<lparr>paused = False, volume = 2, skip = False, queue = [], current_track = None,
      music_buffer = Some \<lparr>buffer = [[(Num 3, Num (- 3))]], maxsize = 480000, current_size = 1\<rparr>,
      tts_buffer = None\<rparr> 1 = Inr (map num_frame out, s')
     \<and> length out = 1 \<and> list_all in_limits (samples_f (map num_frame out)))"
proof
  show "audio_callback_f
     \<lparr>paused = False, volume = 2, skip = False, queue = [], current_track = None,
      music_buffer = Some \<lparr>buffer = [[(Num 3, Num (- 3))]], maxsize = 480000, current_size = 1\<rparr>,
      tts_buffer = None\<rparr> 1
   = Inr ([(Num (95 / 100), Num (- (95 / 100)))],
       \<lparr>paused = False, volume = 2, skip = False, queue = [], current_track = None,
        music_buffer = Some \<lparr>buffer = [], maxsize = 480000, current_size = 0\<rparr>,
        tts_buffer = None\<rparr>)"
    by (simp add: audio_callback_f_def read_or_silence_f_def AudioBuffer_read_f_def zeros_f_def
        mix_f_def scale_f_def tts_active_f_def samples_f_def add_blocks_f_def clip_block_f_def
        clip_def)
next
  let ?s = "\<lparr>paused = False, volume = 2, skip = False, queue = [], current_track = None,
      music_buffer = Some \<lparr>buffer = [[(Num 3, Num (- 3))]], maxsize = 480000, current_size = 1\<rparr>,
      tts_buffer = None :: AudioBuffer_f option\<rparr>"
  have h1: "finite_buffer (music_buffer ?s)" by (simp add: finite_buffer_def samples_f_def)
  have h2: "finite_buffer (tts_buffer ?s)" by (simp add: finite_buffer_def)
  have h3: "(0::int) \<le> 1" by simp
  from output_clipped_for_finite_samples [OF h1 h2 h3] obtain out s' where
    "audio_callback_f ?s 1 = Inr (map num_frame out, s')" and "length out = nat 1"
    and "list_all in_limits (samples_f (map num_frame out))"
    by blast
  then show "\<exists>out s'. audio_callback_f ?s 1 = Inr (map num_frame out, s')
     \<and> length out = 1 \<and> list_all in_limits (samples_f (map num_frame out))"
    by auto
qed

text \<open>
  Claim C4 as stated, for all contents of the buffers, fails. The music buffer holds one
  frame whose left sample is NaN, there is no announcement and the volume is 1: the
  product, the sum and \<open>np.clip\<close> all give NaN, so the left sample written to the output
  is NaN, which is not within the limits.
\<close>

theorem nan_passes_the_limiter_counterexample:
  "audio_callback_f
     \<lparr>paused = False, volume = 1, skip = False, queue = [], current_track = None,
      music_buffer = Some \<lparr>buffer = [[(NaN, Num 0)]], maxsize = 480000, current_size = 1\<rparr>,
      tts_buffer = None\<rparr> 1
   = Inr ([(NaN, Num 0)],
       \<lparr>paused = False, volume = 1, skip = False, queue = [], current_track = None,
        music_buffer = Some \<lparr>buffer = [], maxsize = 480000, current_size = 0\<rparr>,
        tts_buffer = None\<rparr>)
   \<and> \<not> list_all in_limits (samples_f [(NaN, Num 0)])"
  by (simp add: audio_callback_f_def read_or_silence_f_def AudioBuffer_read_f_def zeros_f_def
      mix_f_def scale_f_def tts_active_f_def samples_f_def add_blocks_f_def clip_block_f_def
      clip_def)

section \<open>Properties of sessions and of the playback loop\<close>

subsection \<open>Runs of a session\<close>

lemma session_step_exited: "pc ss = Exited r \<Longrightarrow> session_step ss ev = ss"
  by (simp add: session_step_def)

lemma run_session_exited: "pc ss = Exited r \<Longrightarrow> run_session ss evs = ss"
  unfolding run_session_def by (induction evs) (simp_all add: session_step_exited)

lemma run_session_Cons: "run_session ss (ev # evs) = run_session (session_step ss ev) evs"
  by (simp add: run_session_def)

lemma run_session_Nil: "run_session ss [] = ss"
  by (simp add: run_session_def)

text \<open>A session ends as cancelled only when the playback task was cancelled.\<close>

lemma loop_top_not_cancelled: "pc (loop_top s acts) \<noteq> Exited Cancelled"
  by (simp add: loop_top_def pause_check_def backpressure_check_def)

lemma session_step_cancelled:
  "pc (session_step ss ev) = Exited Cancelled \<Longrightarrow> pc ss = Exited Cancelled \<or> ev = TaskCancelled"
  by (cases ev; cases "pc ss")
    (auto simp: session_step_def on_read_def skip_teardown_def pause_check_def
      backpressure_check_def loop_top_def
      split: read_result.splits if_splits option.splits)

lemma run_session_cancelled:
  "pc (run_session ss evs) = Exited Cancelled \<Longrightarrow>
   pc ss = Exited Cancelled \<or> TaskCancelled \<in> set evs"
proof (induction evs arbitrary: ss)
  case Nil
  then show ?case by (simp add: run_session_Nil)
next
  case (Cons ev evs)
  from Cons.prems have "pc (run_session (session_step ss ev) evs) = Exited Cancelled"
    by (simp add: run_session_Cons)
  then have "pc (session_step ss ev) = Exited Cancelled \<or> TaskCancelled \<in> set evs"
    by (rule Cons.IH)
  then show ?case
    by (auto dest: session_step_cancelled)
qed

lemma play_youtube_start_not_cancelled:
  "pc (play_youtube_start s y f) \<noteq> Exited Cancelled"
  by (simp add: play_youtube_start_def loop_top_not_cancelled)

lemma play_youtube_cancelled:
  "pc (play_youtube s env) = Exited Cancelled \<Longrightarrow> TaskCancelled \<in> set (events env)"
  unfolding play_youtube_def
  by (auto dest: run_session_cancelled simp: play_youtube_start_not_cancelled)

lemma play_youtube_spawn_failure:
  "\<not> (yt_spawns env \<and> ffmpeg_spawns env) \<Longrightarrow>
   pc (play_youtube s env) = Exited Failed \<and> st (play_youtube s env) = s"
  by (auto simp: play_youtube_def play_youtube_start_def run_session_exited)

text \<open>Without a cancellation the playback loop never reaches its stopped state.\<close>

lemma playback_loop_not_stopped:
  "\<forall>env\<in>set envs. TaskCancelled \<notin> set (events env) \<Longrightarrow> snd (playback_loop p envs) \<noteq> Stopped"
proof (induction envs arbitrary: p)
  case Nil
  then show ?case by simp
next
  case (Cons env envs)
  show ?case
  proof (cases "queue (pstate p)")
    case Nil
    then show ?thesis by simp
  next
    case q: (Cons url rest)
    let ?ss = "play_youtube ((pstate p)\<lparr>queue := rest, current_track := Some url\<rparr>) env"
    from Cons.prems have nc: "pc ?ss \<noteq> Exited Cancelled"
      by (auto dest: play_youtube_cancelled)
    from Cons.prems have rest_ok: "\<forall>env\<in>set envs. TaskCancelled \<notin> set (events env)" by simp
    show ?thesis
    proof (cases "pc ?ss")
      case (Exited r)
      with nc have "r \<noteq> Cancelled" by simp
      then obtain success where "play_youtube_result r = Returned success"
        by (cases r) auto
      with Exited q show ?thesis
        using Cons.IH [OF rest_ok] by (simp add: Let_def)
    qed (use q in \<open>simp_all add: Let_def\<close>)
  qed
qed

subsection \<open>Pause and resume\<close>

text \<open>
  Claim C9. A second pause right after a pause gives the same state and the same reply
  as the first; with a track playing that state has the pause flag set. A resume while
  the pause flag is not set leaves the state as it was. The same holds for a session
  that receives the commands: two pause commands leave it as one does, and a resume
  command without the pause flag leaves it unchanged.
\<close>

theorem pause_idempotent_resume_noop:
  "pause_command (fst (pause_command s)) = pause_command s
   \<and> (track_set (current_track s) \<longrightarrow> paused (fst (pause_command s)))
   \<and> (\<not> paused s \<longrightarrow> resume_command s = (s, NothingPaused))
   \<and> session_step (session_step ss (Command Pause)) (Command Pause)
       = session_step ss (Command Pause)
   \<and> (\<not> paused (st ss) \<longrightarrow> session_step ss (Command Resume) = ss)"
proof -
  have a: "pause_command (fst (pause_command s)) = pause_command s"
    by (simp add: pause_command_def)
  have b: "track_set (current_track s) \<longrightarrow> paused (fst (pause_command s))"
    by (simp add: pause_command_def)
  have c: "\<not> paused s \<longrightarrow> resume_command s = (s, NothingPaused)"
    by (simp add: resume_command_def)
  have d: "session_step (session_step ss (Command Pause)) (Command Pause)
       = session_step ss (Command Pause)"
    by (cases "pc ss") (simp_all add: session_step_def pause_command_def)
  have e: "\<not> paused (st ss) \<longrightarrow> session_step ss (Command Resume) = ss"
    by (cases "pc ss") (simp_all add: session_step_def resume_command_def)
  from a b c d e show ?thesis by blast
qed

text \<open>A track \<open>A\<close> is playing and the session waits for FFmpeg.\<close>

theorem pause_idempotent_resume_noop_witness:
  "paused (fst (pause_command (initial_state\<lparr>current_track := Some ''A''\<rparr>)))
   \<and> pause_command (fst (pause_command (initial_state\<lparr>current_track := Some ''A''\<rparr>)))
       = (initial_state\<lparr>current_track := Some ''A'', paused := True\<rparr>, Paused)
   \<and> resume_command (initial_state\<lparr>current_track := Some ''A''\<rparr>)
       = (initial_state\<lparr>current_track := Some ''A''\<rparr>, NothingPaused)
   \<and> session_step \<lparr>pc = ReadWait, st = initial_state\<lparr>current_track := Some ''A''\<rparr>, actions = []\<rparr>
        (Command Resume)
       = \<lparr>pc = ReadWait, st = initial_state\<lparr>current_track := Some ''A''\<rparr>, actions = []\<rparr>"
proof -
  let ?s = "initial_state\<lparr>current_track := Some ''A''\<rparr>"
  let ?ss = "\<lparr>pc = ReadWait, st = ?s, actions = []\<rparr>"
  note t = pause_idempotent_resume_noop [of ?s ?ss]
  have h1: "track_set (current_track ?s)" by (simp add: track_set_def)
  have h2: "\<not> paused ?s" by (simp add: initial_state_def)
  have h3: "\<not> paused (st ?ss)" by (simp add: initial_state_def)
  have p: "pause_command ?s = (?s\<lparr>paused := True\<rparr>, Paused)"
    by (simp add: pause_command_def track_set_def)
  from t h1 have a: "paused (fst (pause_command ?s))" by blast
  from t have "pause_command (fst (pause_command ?s)) = pause_command ?s" by blast
  with p have b: "pause_command (fst (pause_command ?s)) = (?s\<lparr>paused := True\<rparr>, Paused)"
    by simp
  from t h2 have c: "resume_command ?s = (?s, NothingPaused)" by blast
  from t h3 have d: "session_step ?ss (Command Resume) = ?ss" by blast
  from a b c d show ?thesis by blast
qed

subsection \<open>Skip\<close>

text \<open>
  Claim C5 fails at the end of a stream. A session for track \<open>A\<close> has written one chunk
  to the music buffer (occupancy 1) and waits for the next read. The skip command runs
  and sets the flag; the read then returns the empty chunk. The loop leaves at
  \<^verbatim>\<open>if not chunk: break\<close> without looking at the flag: the session ends as a normal end
  of stream, the bridging task is not cancelled, no process is terminated, the buffer
  still holds the chunk, and the skip flag stays set.
\<close>

theorem skip_lost_at_end_of_stream:
  "pc (play_youtube
         (initial_state\<lparr>current_track := Some ''A'',
            music_buffer := Some (AudioBuffer_init 480000)\<rparr>)
         \<lparr>yt_spawns = True, ffmpeg_spawns = True,
          events = [ReadReturned (Data [(1 / 2, 1 / 2)])]\<rparr>) = ReadWait
   \<and> map_option current_size (music_buffer (st (play_youtube
         (initial_state\<lparr>current_track := Some ''A'',
            music_buffer := Some (AudioBuffer_init 480000)\<rparr>)
         \<lparr>yt_spawns = True, ffmpeg_spawns = True,
          events = [ReadReturned (Data [(1 / 2, 1 / 2)])]\<rparr>))) = Some 1
   \<and> play_youtube
         (initial_state\<lparr>current_track := Some ''A'',
            music_buffer := Some (AudioBuffer_init 480000)\<rparr>)
         \<lparr>yt_spawns = True, ffmpeg_spawns = True,
          events = [ReadReturned (Data [(1 / 2, 1 / 2)]), Command Skip, ReadReturned (Data [])]\<rparr>
       = \<lparr>pc = Exited EndOfStream,
          st = initial_state\<lparr>current_track := Some ''A'',
            music_buffer := Some \<lparr>buffer = [[(1 / 2, 1 / 2)]], maxsize = 480000, current_size = 1\<rparr>,
            skip := True\<rparr>,
          actions = [SpawnYtDlp, SpawnFfmpeg, StartPipeTask]\<rparr>"
  by (simp add: play_youtube_def play_youtube_start_def run_session_def session_step_def
      loop_top_def pause_check_def backpressure_check_def over_backpressure_def on_read_def
      skip_command_def track_set_def initial_state_def AudioBuffer_init_def
      AudioBuffer_write_def AudioBuffer_available_frames_def SAMPLE_RATE_def)

text \<open>
  The same for every session that waits for a read: a skip command followed by the end
  of the stream ends the session as a normal end of stream, with the flag set, the
  buffers as they were and no call made.
\<close>

lemma skip_then_end_of_stream:
  assumes "pc ss = ReadWait" and "track_set (current_track (st ss))"
  shows "run_session ss [Command Skip, ReadReturned (Data [])]
     = ss\<lparr>pc := Exited EndOfStream, st := (st ss)\<lparr>skip := True\<rparr>\<rparr>"
  using assms
  by (simp add: run_session_def session_step_def on_read_def skip_command_def)

text \<open>
  When the loop does come back to its top with the flag set, the skip branch does what
  the claim says, in that order: the bridging task is cancelled, FFmpeg and yt-dlp are
  terminated, the music buffer is cleared, and the session ends as skipped.
\<close>

lemma skip_seen_at_loop_top:
  assumes "skip s" and "music_buffer s = Some b"
  shows "run_session (loop_top s acts) [PipeTaskSettled]
     = \<lparr>pc = Exited TrackSkipped,
        st = s\<lparr>skip := False, music_buffer := Some (AudioBuffer_clear b)\<rparr>,
        actions = acts @ [CancelPipeTask, TerminateFfmpeg, TerminateYtDlp, ClearMusicBuffer,
          LogTrackSkipped]\<rparr>"
  using assms
  by (simp add: run_session_def loop_top_def session_step_def skip_teardown_def)

text \<open>So a skip that is followed by one more chunk is handled.\<close>

lemma skip_before_next_chunk:
  assumes "pc ss = ReadWait" and "track_set (current_track (st ss))"
    and "music_buffer (st ss) = Some b" and "d \<noteq> []"
  shows "run_session ss [Command Skip, ReadReturned (Data d), PipeTaskSettled]
     = \<lparr>pc = Exited TrackSkipped,
        st = (st ss)\<lparr>skip := False, music_buffer := Some (AudioBuffer_clear (AudioBuffer_write b d))\<rparr>,
        actions = actions ss @ [CancelPipeTask, TerminateFfmpeg, TerminateYtDlp, ClearMusicBuffer,
          LogTrackSkipped]\<rparr>"
  using assms
  by (simp add: run_session_def loop_top_def session_step_def skip_teardown_def on_read_def
      skip_command_def)

text \<open>A flag left set ends the next track before anything is read from it.\<close>

lemma stale_skip_ends_next_track:
  assumes "skip s" and "music_buffer s = Some b"
  shows "play_youtube s \<lparr>yt_spawns = True, ffmpeg_spawns = True, events = [PipeTaskSettled]\<rparr>
     = \<lparr>pc = Exited TrackSkipped,
        st = s\<lparr>skip := False, music_buffer := Some (AudioBuffer_clear b)\<rparr>,
        actions = [SpawnYtDlp, SpawnFfmpeg, StartPipeTask, CancelPipeTask, TerminateFfmpeg,
          TerminateYtDlp, ClearMusicBuffer, LogTrackSkipped]\<rparr>"
  using assms skip_seen_at_loop_top [OF assms, of "[SpawnYtDlp, SpawnFfmpeg, StartPipeTask]"]
  by (simp add: play_youtube_def play_youtube_start_def)

subsection \<open>Failed tracks\<close>

lemma run_session_append:
  "run_session ss (evs @ evs') = run_session (run_session ss evs) evs'"
  by (simp add: run_session_def)

text \<open>
  A read error while the session waits for a read ends it as failed, whatever events
  came before.
\<close>

lemma read_error_fails_session:
  assumes "pc (run_session ss evs) = ReadWait"
  shows "run_session ss (evs @ [ReadReturned ReadError])
     = (run_session ss evs)\<lparr>pc := Exited Failed,
          actions := actions (run_session ss evs) @ [LogPlaybackError]\<rparr>"
  using assms
  by (simp add: run_session_append run_session_Cons run_session_Nil session_step_def on_read_def)

lemma read_error_fails_track:
  assumes "pc (play_youtube s (env\<lparr>events := evs\<rparr>)) = ReadWait"
  shows "play_youtube s (env\<lparr>events := evs @ [ReadReturned ReadError]\<rparr>)
     = (play_youtube s (env\<lparr>events := evs\<rparr>))\<lparr>pc := Exited Failed,
          actions := actions (play_youtube s (env\<lparr>events := evs\<rparr>)) @ [LogPlaybackError]\<rparr>"
  using assms read_error_fails_session [of "play_youtube_start s (yt_spawns env) (ffmpeg_spawns env)" evs]
  by (simp add: play_youtube_def)

text \<open>After a track that ended as failed the loop goes on with the rest of the queue.\<close>

lemma playback_loop_failed_track:
  assumes "queue (pstate p) = url # rest"
    and "pc (play_youtube ((pstate p)\<lparr>queue := rest, current_track := Some url\<rparr>) env) = Exited Failed"
  shows "playback_loop p (env # envs)
     = playback_loop
         \<lparr>pstate = (st (play_youtube ((pstate p)\<lparr>queue := rest, current_track := Some url\<rparr>) env))
            \<lparr>current_track := None\<rparr>,
          plog = plog p @ [NowPlaying url, FailedToPlay url],
          saved_queue = queue (st (play_youtube
            ((pstate p)\<lparr>queue := rest, current_track := Some url\<rparr>) env))\<rparr>
         envs"
  using assms by (simp add: Let_def)

text \<open>
  Claim C8. A track whose yt-dlp or FFmpeg process cannot be spawned ends as failed with
  the state untouched. A read error ends a streaming session as failed: in one step of
  a session that waits for a read, and at the end of any run of \<open>play_youtube\<close> that has
  reached the read. \<open>play_youtube\<close> then returns \<open>False\<close>. After a track that failed,
  because a process could not be spawned or because of a read error during streaming,
  the playback loop logs the failure, clears \<open>current_track\<close>, saves the queue and goes
  on with the rest of the queue. Unless the playback task is cancelled during some
  track, the loop is never stopped.
\<close>

theorem failed_track_does_not_stop_loop:
  "(\<not> (yt_spawns env \<and> ffmpeg_spawns env) \<longrightarrow>
      pc (play_youtube s env) = Exited Failed \<and> st (play_youtube s env) = s)
   \<and> (pc ss = ReadWait \<longrightarrow>
        session_step ss (ReadReturned ReadError)
          = ss\<lparr>pc := Exited Failed, actions := actions ss @ [LogPlaybackError]\<rparr>)
   \<and> (pc (play_youtube s (env\<lparr>events := evs\<rparr>)) = ReadWait \<longrightarrow>
        play_youtube s (env\<lparr>events := evs @ [ReadReturned ReadError]\<rparr>)
          = (play_youtube s (env\<lparr>events := evs\<rparr>))\<lparr>pc := Exited Failed,
               actions := actions (play_youtube s (env\<lparr>events := evs\<rparr>)) @ [LogPlaybackError]\<rparr>)
   \<and> play_youtube_result Failed = Returned False
   \<and> (queue (pstate p) = url # rest
       \<and> pc (play_youtube ((pstate p)\<lparr>queue := rest, current_track := Some url\<rparr>) env)
           = Exited Failed \<longrightarrow>
        playback_loop p (env # envs)
          = playback_loop
              \<lparr>pstate = (st (play_youtube ((pstate p)\<lparr>queue := rest, current_track := Some url\<rparr>) env))
                 \<lparr>current_track := None\<rparr>,
               plog = plog p @ [NowPlaying url, FailedToPlay url],
               saved_queue = queue (st (play_youtube
                 ((pstate p)\<lparr>queue := rest, current_track := Some url\<rparr>) env))\<rparr>
              envs)
   \<and> (queue (pstate p) = url # rest \<and> \<not> (yt_spawns env \<and> ffmpeg_spawns env) \<longrightarrow>
        playback_loop p (env # envs)
          = playback_loop
              \<lparr>pstate = (pstate p)\<lparr>queue := rest, current_track := None\<rparr>,
               plog = plog p @ [NowPlaying url, FailedToPlay url],
               saved_queue = rest\<rparr>
              envs)
   \<and> (queue (pstate p) = url # rest
       \<and> pc (play_youtube ((pstate p)\<lparr>queue := rest, current_track := Some url\<rparr>)
               (env\<lparr>events := evs\<rparr>)) = ReadWait \<longrightarrow>
        playback_loop p (env\<lparr>events := evs @ [ReadReturned ReadError]\<rparr> # envs)
          = playback_loop
              \<lparr>pstate = (st (play_youtube ((pstate p)\<lparr>queue := rest, current_track := Some url\<rparr>)
                   (env\<lparr>events := evs\<rparr>)))\<lparr>current_track := None\<rparr>,
               plog = plog p @ [NowPlaying url, FailedToPlay url],
               saved_queue = queue (st (play_youtube
                 ((pstate p)\<lparr>queue := rest, current_track := Some url\<rparr>) (env\<lparr>events := evs\<rparr>)))\<rparr>
              envs)
   \<and> ((\<forall>e\<in>set (env # envs). TaskCancelled \<notin> set (events e)) \<longrightarrow>
        snd (playback_loop p (env # envs)) \<noteq> Stopped)"
proof -
  let ?s1 = "(pstate p)\<lparr>queue := rest, current_track := Some url\<rparr>"
  have a: "\<not> (yt_spawns env \<and> ffmpeg_spawns env) \<longrightarrow>
      pc (play_youtube s env) = Exited Failed \<and> st (play_youtube s env) = s"
    using play_youtube_spawn_failure by blast
  have b: "pc ss = ReadWait \<longrightarrow>
        session_step ss (ReadReturned ReadError)
          = ss\<lparr>pc := Exited Failed, actions := actions ss @ [LogPlaybackError]\<rparr>"
    by (simp add: session_step_def on_read_def)
  have b': "pc (play_youtube s (env\<lparr>events := evs\<rparr>)) = ReadWait \<longrightarrow>
        play_youtube s (env\<lparr>events := evs @ [ReadReturned ReadError]\<rparr>)
          = (play_youtube s (env\<lparr>events := evs\<rparr>))\<lparr>pc := Exited Failed,
               actions := actions (play_youtube s (env\<lparr>events := evs\<rparr>)) @ [LogPlaybackError]\<rparr>"
    using read_error_fails_track by blast
  have c: "play_youtube_result Failed = Returned False" by simp
  have d: "queue (pstate p) = url # rest \<and> pc (play_youtube ?s1 env) = Exited Failed \<longrightarrow>
        playback_loop p (env # envs)
          = playback_loop
              \<lparr>pstate = (st (play_youtube ?s1 env))\<lparr>current_track := None\<rparr>,
               plog = plog p @ [NowPlaying url, FailedToPlay url],
               saved_queue = queue (st (play_youtube ?s1 env))\<rparr>
              envs"
    using playback_loop_failed_track by blast
  have d1: "queue (pstate p) = url # rest \<and> \<not> (yt_spawns env \<and> ffmpeg_spawns env) \<longrightarrow>
        playback_loop p (env # envs)
          = playback_loop
              \<lparr>pstate = (pstate p)\<lparr>queue := rest, current_track := None\<rparr>,
               plog = plog p @ [NowPlaying url, FailedToPlay url],
               saved_queue = rest\<rparr>
              envs"
  proof (intro impI, elim conjE)
    assume q: "queue (pstate p) = url # rest" and ns: "\<not> (yt_spawns env \<and> ffmpeg_spawns env)"
    from ns have f: "pc (play_youtube ?s1 env) = Exited Failed" and u: "st (play_youtube ?s1 env) = ?s1"
      using play_youtube_spawn_failure by blast+
    from playback_loop_failed_track [OF q f, of envs] u
    show "playback_loop p (env # envs)
          = playback_loop
              \<lparr>pstate = (pstate p)\<lparr>queue := rest, current_track := None\<rparr>,
               plog = plog p @ [NowPlaying url, FailedToPlay url],
               saved_queue = rest\<rparr>
              envs"
      by simp
  qed
  have d2: "queue (pstate p) = url # rest
       \<and> pc (play_youtube ?s1 (env\<lparr>events := evs\<rparr>)) = ReadWait \<longrightarrow>
        playback_loop p (env\<lparr>events := evs @ [ReadReturned ReadError]\<rparr> # envs)
          = playback_loop
              \<lparr>pstate = (st (play_youtube ?s1 (env\<lparr>events := evs\<rparr>)))\<lparr>current_track := None\<rparr>,
               plog = plog p @ [NowPlaying url, FailedToPlay url],
               saved_queue = queue (st (play_youtube ?s1 (env\<lparr>events := evs\<rparr>)))\<rparr>
              envs"
  proof (intro impI, elim conjE)
    assume q: "queue (pstate p) = url # rest"
      and r: "pc (play_youtube ?s1 (env\<lparr>events := evs\<rparr>)) = ReadWait"
    let ?env = "env\<lparr>events := evs @ [ReadReturned ReadError]\<rparr>"
    from read_error_fails_track [OF r]
    have f: "pc (play_youtube ?s1 ?env) = Exited Failed"
      and u: "st (play_youtube ?s1 ?env) = st (play_youtube ?s1 (env\<lparr>events := evs\<rparr>))"
      by simp_all
    from playback_loop_failed_track [OF q f, of envs] u
    show "playback_loop p (?env # envs)
          = playback_loop
              \<lparr>pstate = (st (play_youtube ?s1 (env\<lparr>events := evs\<rparr>)))\<lparr>current_track := None\<rparr>,
               plog = plog p @ [NowPlaying url, FailedToPlay url],
               saved_queue = queue (st (play_youtube ?s1 (env\<lparr>events := evs\<rparr>)))\<rparr>
              envs"
      by simp
  qed
  have e: "(\<forall>e\<in>set (env # envs). TaskCancelled \<notin> set (events e)) \<longrightarrow>
        snd (playback_loop p (env # envs)) \<noteq> Stopped"
    using playback_loop_not_stopped by blast
  from a b b' c d d1 d2 e show ?thesis by blast
qed

text \<open>
  The queue holds \<open>A\<close> and \<open>B\<close>. In the first run yt-dlp cannot be spawned for \<open>A\<close>; in
  the second \<open>A\<close> streams one chunk and the next read raises. In both \<open>B\<close> then plays
  one chunk to the end of its stream, and the loop ends waiting at the empty queue.
\<close>

theorem failed_track_does_not_stop_loop_witness:
  "playback_loop
     \<lparr>pstate = initial_state\<lparr>queue := [''A'', ''B''],
        music_buffer := Some (AudioBuffer_init 480000)\<rparr>,
      plog = [], saved_queue = [''A'', ''B'']\<rparr>
     [\<lparr>yt_spawns = False, ffmpeg_spawns = True, events = []\<rparr>,
      \<lparr>yt_spawns = True, ffmpeg_spawns = True,
       events = [ReadReturned (Data [(1 / 2, 1 / 2)]), ReadReturned (Data [])]\<rparr>]
   = (\<lparr>pstate = initial_state\<lparr>queue := [], current_track := None,
          music_buffer := Some (AudioBuffer_write (AudioBuffer_init 480000) [(1 / 2, 1 / 2)])\<rparr>,
       plog = [NowPlaying ''A'', FailedToPlay ''A'', NowPlaying ''B''],
       saved_queue = []\<rparr>, AtQueueGet)
   \<and> playback_loop
     \<lparr>pstate = initial_state\<lparr>queue := [''A'', ''B''],
        music_buffer := Some (AudioBuffer_init 480000)\<rparr>,
      plog = [], saved_queue = [''A'', ''B'']\<rparr>
     [\<lparr>yt_spawns = True, ffmpeg_spawns = True,
       events = [ReadReturned (Data [(1 / 4, 1 / 4)]), ReadReturned ReadError]\<rparr>,
      \<lparr>yt_spawns = True, ffmpeg_spawns = True,
       events = [ReadReturned (Data [(1 / 2, 1 / 2)]), ReadReturned (Data [])]\<rparr>]
   = (\<lparr>pstate = initial_state\<lparr>queue := [], current_track := None,
          music_buffer := Some (AudioBuffer_write
            (AudioBuffer_write (AudioBuffer_init 480000) [(1 / 4, 1 / 4)]) [(1 / 2, 1 / 2)])\<rparr>,
       plog = [NowPlaying ''A'', FailedToPlay ''A'', NowPlaying ''B''],
       saved_queue = []\<rparr>, AtQueueGet)
   \<and> pc (session_step \<lparr>pc = ReadWait, st = initial_state, actions = []\<rparr> (ReadReturned ReadError))
       = Exited Failed"
proof -
  let ?s0 = "initial_state\<lparr>queue := [''A'', ''B''],
        music_buffer := Some (AudioBuffer_init 480000)\<rparr>"
  let ?p = "\<lparr>pstate = ?s0, plog = [], saved_queue = [''A'', ''B'']\<rparr>"
  let ?s1 = "(pstate ?p)\<lparr>queue := [''B''], current_track := Some ''A''\<rparr>"
  let ?envS = "\<lparr>yt_spawns = False, ffmpeg_spawns = True, events = []\<rparr>"
  let ?envR = "\<lparr>yt_spawns = True, ffmpeg_spawns = True, events = []\<rparr>"
  let ?evs = "[ReadReturned (Data [(1 / 4, 1 / 4)])]"
  let ?envB = "\<lparr>yt_spawns = True, ffmpeg_spawns = True,
       events = [ReadReturned (Data [(1 / 2, 1 / 2)]), ReadReturned (Data [])]\<rparr>"
  let ?ss = "\<lparr>pc = ReadWait, st = initial_state, actions = []\<rparr>"
  note ev = play_youtube_def play_youtube_start_def run_session_def session_step_def
      loop_top_def pause_check_def backpressure_check_def over_backpressure_def on_read_def
      initial_state_def AudioBuffer_init_def AudioBuffer_write_def
      AudioBuffer_available_frames_def SAMPLE_RATE_def Let_def
  note t1 = failed_track_does_not_stop_loop [of ?envS ?s1 ?ss ?evs ?p "''A''" "[''B'']" "[?envB]"]
  note t2 = failed_track_does_not_stop_loop [of ?envR ?s1 ?ss ?evs ?p "''A''" "[''B'']" "[?envB]"]
  have h1: "queue (pstate ?p) = ''A'' # [''B''] \<and> \<not> (yt_spawns ?envS \<and> ffmpeg_spawns ?envS)"
    by simp
  have h2: "queue (pstate ?p) = ''A'' # [''B'']
      \<and> pc (play_youtube ?s1 (?envR\<lparr>events := ?evs\<rparr>)) = ReadWait"
    by (simp add: ev)
  have h3: "pc ?ss = ReadWait" by simp
  from t1 h1 have "playback_loop ?p (?envS # [?envB])
      = playback_loop
          \<lparr>pstate = (pstate ?p)\<lparr>queue := [''B''], current_track := None\<rparr>,
           plog = plog ?p @ [NowPlaying ''A'', FailedToPlay ''A''],
           saved_queue = [''B'']\<rparr> [?envB]"
    by blast
  also have "\<dots> = (\<lparr>pstate = initial_state\<lparr>queue := [], current_track := None,
          music_buffer := Some (AudioBuffer_write (AudioBuffer_init 480000) [(1 / 2, 1 / 2)])\<rparr>,
       plog = [NowPlaying ''A'', FailedToPlay ''A'', NowPlaying ''B''],
       saved_queue = []\<rparr>, AtQueueGet)"
    by (simp add: ev)
  finally have a: "playback_loop ?p (?envS # [?envB])
     = (\<lparr>pstate = initial_state\<lparr>queue := [], current_track := None,
          music_buffer := Some (AudioBuffer_write (AudioBuffer_init 480000) [(1 / 2, 1 / 2)])\<rparr>,
       plog = [NowPlaying ''A'', FailedToPlay ''A'', NowPlaying ''B''],
       saved_queue = []\<rparr>, AtQueueGet)" .
  from t2 h2 have "playback_loop ?p (?envR\<lparr>events := ?evs @ [ReadReturned ReadError]\<rparr> # [?envB])
      = playback_loop
          \<lparr>pstate = (st (play_youtube ?s1 (?envR\<lparr>events := ?evs\<rparr>)))\<lparr>current_track := None\<rparr>,
           plog = plog ?p @ [NowPlaying ''A'', FailedToPlay ''A''],
           saved_queue = queue (st (play_youtube ?s1 (?envR\<lparr>events := ?evs\<rparr>)))\<rparr> [?envB]"
    by blast
  also have "\<dots> = (\<lparr>pstate = initial_state\<lparr>queue := [], current_track := None,
          music_buffer := Some (AudioBuffer_write
            (AudioBuffer_write (AudioBuffer_init 480000) [(1 / 4, 1 / 4)]) [(1 / 2, 1 / 2)])\<rparr>,
       plog = [NowPlaying ''A'', FailedToPlay ''A'', NowPlaying ''B''],
       saved_queue = []\<rparr>, AtQueueGet)"
    by (simp add: ev)
  finally have b: "playback_loop ?p
       [\<lparr>yt_spawns = True, ffmpeg_spawns = True,
         events = [ReadReturned (Data [(1 / 4, 1 / 4)]), ReadReturned ReadError]\<rparr>, ?envB]
     = (\<lparr>pstate = initial_state\<lparr>queue := [], current_track := None,
          music_buffer := Some (AudioBuffer_write
            (AudioBuffer_write (AudioBuffer_init 480000) [(1 / 4, 1 / 4)]) [(1 / 2, 1 / 2)])\<rparr>,
       plog = [NowPlaying ''A'', FailedToPlay ''A'', NowPlaying ''B''],
       saved_queue = []\<rparr>, AtQueueGet)"
    by simp
  from t1 h3 have "session_step ?ss (ReadReturned ReadError)
      = ?ss\<lparr>pc := Exited Failed, actions := actions ?ss @ [LogPlaybackError]\<rparr>"
    by blast
  then have c: "pc (session_step ?ss (ReadReturned ReadError)) = Exited Failed" by simp
  from a b c show ?thesis by blast
qed

end
